theory Spec2Isabelle
  imports Main "HOL-Library.Sublist" "HOL-Library.Multiset" "HOL-Library.Word"
begin

section \<open>JavaScript strings\<close>

text \<open>
  A JavaScript string is modelled as a \<open>string\<close> (a list of characters). Only the
  ASCII letters take part in case conversion; the same function is used on both
  sides of every comparison, as in the source.
\<close>

definition toLowerChar :: "char \<Rightarrow> char" where
  "toLowerChar c =
     (let n = (of_char c :: nat) in if 65 \<le> n \<and> n \<le> 90 then char_of (n + 32) else c)"

definition toLowerCase :: "string \<Rightarrow> string" where
  "toLowerCase s = map toLowerChar s"

text \<open>\<^verbatim>\<open>s.includes(q)\<close>: \<open>q\<close> occurs in \<open>s\<close> at some position.\<close>

fun includes_str :: "string \<Rightarrow> string \<Rightarrow> bool" where
  "includes_str [] q = (q = [])"
| "includes_str (c # s) q = (prefix q (c # s) \<or> includes_str s q)"

text \<open>\<^verbatim>\<open>x || 0\<close> on a number that may be \<^verbatim>\<open>null\<close>.\<close>

fun or0 :: "int option \<Rightarrow> int" where
  "or0 None = 0"
| "or0 (Some n) = n"

text \<open>\<^verbatim>\<open>s || d\<close> on a string that may be missing: the empty string is falsy.\<close>

fun orElse :: "string option \<Rightarrow> string \<Rightarrow> string" where
  "orElse None d = d"
| "orElse (Some s) d = (if s = [] then d else s)"

section \<open>Entries\<close>

text \<open>
  The fields every host reads (\<open>key_base\<close>, also the shape the importers build), and
  the full stored entry of \<^verbatim>\<open>StorageManager.addKey\<close>. The type parameter is the type of
  \<^verbatim>\<open>keyValue\<close>: an opaque stored blob in the vault, a plain string once decrypted.
\<close>

record 'v key_base =
  serviceName :: string
  keyValue :: 'v
  environment :: string
  tags :: "string list"
  notes' :: string
  domains :: "string list"
  favorite :: bool

record 'v entry = "'v key_base" +
  entry_id :: string
  createdAt :: int
  lastUsed :: "int option"
  usageCount :: int
  expiresAt :: "int option"
  color :: string
  rateLimit :: string
  estimatedCost :: int

section \<open>Cryptographic values\<close>

text \<open>
  The platform's cryptography (WebCrypto, Node's \<^verbatim>\<open>crypto\<close>) is not code of the
  repository. Its outputs are modelled symbolically: a digest or a ciphertext is a term
  that records what it was computed from, two outputs are equal exactly when they were
  computed from the same inputs, and authenticated decryption succeeds exactly under the
  key that sealed the envelope.
\<close>

type_synonym bytes = "8 word list"

datatype derived = Pbkdf2 string bytes int
  \<comment> \<open>PBKDF2-HMAC-SHA-256 of (password, salt, iterations), 256 bits\<close>

datatype blob =
    Text string
      \<comment> \<open>any string that is not one of the encodings below\<close>
  | SaltedHash bytes derived
      \<comment> \<open>base64 of salt followed by the derived bits\<close>
  | GcmEnvelope bytes bytes derived string
      \<comment> \<open>base64 of salt, iv and the AES-GCM sealing of the text under the key\<close>
  | Sha256Hex string
      \<comment> \<open>hex digest of the unsalted SHA-256 of the text\<close>
  | CbcHex string string
      \<comment> \<open>hex output of \<^verbatim>\<open>createCipher('aes-256-cbc', password)\<close> on the text\<close>

datatype error =
    VaultLocked
  | KeyNotFound
  | InvalidMasterPassword
  | InvalidPassword
  | VaultNotFound
  | DecryptionFailed
  | TypeError
  | SyntaxError
  | RangeError

section \<open>EncryptionService\<close>

definition iterations :: int where
  "iterations = 100000"

definition deriveKey :: "string \<Rightarrow> bytes \<Rightarrow> derived" where
  "deriveKey password salt = Pbkdf2 password salt iterations"

text \<open>The salt and the iv are the two draws of \<^verbatim>\<open>crypto.getRandomValues\<close>.\<close>

definition encryptData :: "bytes \<Rightarrow> bytes \<Rightarrow> string \<Rightarrow> string \<Rightarrow> blob" where
  "encryptData salt iv data password = GcmEnvelope salt iv (deriveKey password salt) data"

fun decryptData :: "blob \<Rightarrow> string \<Rightarrow> error + string" where
  "decryptData (GcmEnvelope salt iv key data) password =
     (if deriveKey password salt = key then Inr data else Inl DecryptionFailed)"
| "decryptData _ password = Inl DecryptionFailed"

definition hashPassword :: "bytes \<Rightarrow> string \<Rightarrow> blob" where
  "hashPassword salt password = SaltedHash salt (Pbkdf2 password salt iterations)"

text \<open>
  \<^verbatim>\<open>constantTimeEqual\<close> on two byte arrays: the loop ORs the XOR of every pair of bytes
  into an accumulator.
\<close>

fun ct_loop :: "8 word \<Rightarrow> bytes \<Rightarrow> bytes \<Rightarrow> 8 word" where
  "ct_loop result (x # xs) (y # ys) = ct_loop (or result (xor x y)) xs ys"
| "ct_loop result _ _ = result"

definition constantTimeEqual :: "bytes \<Rightarrow> bytes \<Rightarrow> bool" where
  "constantTimeEqual a b =
     (if length a \<noteq> length b then False else ct_loop 0 a b = 0)"

text \<open>
  \<^verbatim>\<open>verifyMasterPassword\<close>, given the stored hash (\<^verbatim>\<open>chrome.storage.local.passwordHash\<close>)
  and the salt a first-time setup would draw; it returns the answer and the stored hash
  afterwards. The two derived values are compared by \<open>constantTimeEqual\<close> on their
  bytes, which decides equality (lemma \<open>constantTimeEqual_iff\<close> below); on symbolic
  digests that is equality of the terms. Every exception (a stored value that does not
  decode) is caught and answers \<^verbatim>\<open>false\<close>.
\<close>

fun verifyMasterPassword :: "bytes \<Rightarrow> string \<Rightarrow> blob option \<Rightarrow> bool \<times> blob option" where
  "verifyMasterPassword salt password None = (True, Some (hashPassword salt password))"
| "verifyMasterPassword salt password (Some (SaltedHash s storedHash)) =
     (storedHash = Pbkdf2 password s iterations, Some (SaltedHash s storedHash))"
| "verifyMasterPassword salt password (Some b) = (False, Some b)"

section \<open>StorageManager\<close>

text \<open>
  A settings object; \<^verbatim>\<open>{...a, ...b}\<close> merges two of them property by property, so every
  property may be missing.
\<close>

record settings =
  autoLockMinutes :: "int option"
  clipboardClearSeconds :: "int option"
  theme :: "string option"
  showUsageStats :: "bool option"
  enableAutoFill :: "bool option"
  showExpirationWarnings :: "bool option"
  expirationWarningDays :: "int option"
  maskKeys :: "bool option"
  enableAuditLog :: "bool option"

definition getDefaultSettings :: settings where
  "getDefaultSettings =
     \<lparr>autoLockMinutes = Some 15, clipboardClearSeconds = Some 30, theme = Some ''dark'',
      showUsageStats = Some True, enableAutoFill = Some True,
      showExpirationWarnings = Some True, expirationWarningDays = Some 7,
      maskKeys = Some True, enableAuditLog = Some True\<rparr>"

definition no_settings :: settings where
  "no_settings =
     \<lparr>autoLockMinutes = None, clipboardClearSeconds = None, theme = None,
      showUsageStats = None, enableAutoFill = None, showExpirationWarnings = None,
      expirationWarningDays = None, maskKeys = None, enableAuditLog = None\<rparr>"

text \<open>A property of the right operand of a spread, when present, wins.\<close>

fun spread :: "'a \<Rightarrow> 'a option \<Rightarrow> 'a" where
  "spread old None = old"
| "spread old (Some v) = v"

fun spread_opt :: "'a option \<Rightarrow> 'a option \<Rightarrow> 'a option" where
  "spread_opt old None = old"
| "spread_opt old (Some v) = Some v"

definition merge_settings :: "settings \<Rightarrow> settings \<Rightarrow> settings" where
  "merge_settings a b =
     \<lparr>autoLockMinutes = spread_opt (autoLockMinutes a) (autoLockMinutes b),
      clipboardClearSeconds = spread_opt (clipboardClearSeconds a) (clipboardClearSeconds b),
      theme = spread_opt (theme a) (theme b),
      showUsageStats = spread_opt (showUsageStats a) (showUsageStats b),
      enableAutoFill = spread_opt (enableAutoFill a) (enableAutoFill b),
      showExpirationWarnings = spread_opt (showExpirationWarnings a) (showExpirationWarnings b),
      expirationWarningDays = spread_opt (expirationWarningDays a) (expirationWarningDays b),
      maskKeys = spread_opt (maskKeys a) (maskKeys b),
      enableAuditLog = spread_opt (enableAuditLog a) (enableAuditLog b)\<rparr>"

record audit_entry =
  audit_id :: string
  action :: string
  timestamp :: int

text \<open>
  The object under \<^verbatim>\<open>vaultData\<close> in \<^verbatim>\<open>chrome.storage.local\<close>. Every property may be
  missing: \<^verbatim>\<open>getStorageData\<close> answers \<^verbatim>\<open>{}\<close> when nothing was stored, and
  \<^verbatim>\<open>updateLastActivity\<close> writes that object back with one property set.
\<close>

record vault_data =
  initialized :: bool
  keys :: "blob entry list option"
  settings :: "settings option"
  auditLog :: "audit_entry list option"
  lastActivity :: "int option"

definition empty_data :: vault_data where
  "empty_data =
     \<lparr>initialized = False, keys = None, settings = None, auditLog = None,
      lastActivity = None\<rparr>"

text \<open>
  The state of the extension's service worker: the two fields of the \<^verbatim>\<open>StorageManager\<close>
  object, the two keys of \<^verbatim>\<open>chrome.storage.local\<close>, and the \<^verbatim>\<open>auto-lock\<close> alarm.
\<close>

record ext_state =
  sessionKey :: "string option"
  isUnlocked :: bool
  vaultData :: "vault_data option"
  passwordHash :: "blob option"
  autoLockAlarm :: "int option"

text \<open>
  What one call draws from its environment: the clock, the random salt and iv of an
  encryption, the identifiers \<^verbatim>\<open>generateId\<close> returns for a key and for an audit record,
  and the colour \<^verbatim>\<open>getRandomColor\<close> picks.
\<close>

record env =
  now :: int
  salt :: bytes
  iv :: bytes
  key_id :: string
  log_id :: string
  random_color :: string

definition getStorageData :: "ext_state \<Rightarrow> vault_data" where
  "getStorageData s = (case vaultData s of None \<Rightarrow> empty_data | Some d \<Rightarrow> d)"

definition setStorageData :: "vault_data \<Rightarrow> ext_state \<Rightarrow> ext_state" where
  "setStorageData d s = s\<lparr>vaultData := Some d\<rparr>"

definition updateLastActivity :: "env \<Rightarrow> ext_state \<Rightarrow> ext_state" where
  "updateLastActivity e s =
     setStorageData ((getStorageData s)\<lparr>lastActivity := Some (now e)\<rparr>) s"

definition initialize :: "env \<Rightarrow> ext_state \<Rightarrow> ext_state" where
  "initialize e s =
     (if \<not> initialized (getStorageData s)
      then setStorageData
             \<lparr>initialized = True, keys = Some [], settings = Some getDefaultSettings,
              auditLog = Some [], lastActivity = Some (now e)\<rparr> s
      else s)"

definition unlockVault :: "env \<Rightarrow> string \<Rightarrow> ext_state \<Rightarrow> (error + bool) \<times> ext_state" where
  "unlockVault e masterPassword s =
     (let (isValid, stored) = verifyMasterPassword (salt e) masterPassword (passwordHash s);
          s1 = s\<lparr>passwordHash := stored\<rparr>
      in if \<not> isValid then (Inl InvalidMasterPassword, s1)
         else (Inr True,
               updateLastActivity e (s1\<lparr>sessionKey := Some masterPassword, isUnlocked := True\<rparr>)))"

definition lockVault :: "ext_state \<Rightarrow> ext_state" where
  "lockVault s = s\<lparr>sessionKey := None, isUnlocked := False\<rparr>"

definition isVaultUnlocked :: "ext_state \<Rightarrow> bool" where
  "isVaultUnlocked s = isUnlocked s"

text \<open>
  The password handed to the encryption service is \<^verbatim>\<open>this.sessionKey\<close>; \<^verbatim>\<open>TextEncoder\<close>
  encodes \<^verbatim>\<open>null\<close> as the four letters of its name.
\<close>

definition session_password :: "ext_state \<Rightarrow> string" where
  "session_password s = (case sessionKey s of None \<Rightarrow> ''null'' | Some k \<Rightarrow> k)"

text \<open>\<^verbatim>\<open>{...key, keyValue: v}\<close>: the same entry with another key value.\<close>

definition with_keyValue :: "'a entry \<Rightarrow> 'b \<Rightarrow> 'b entry" where
  "with_keyValue k v =
     \<lparr>serviceName = serviceName k, keyValue = v, environment = environment k,
      tags = tags k, notes' = notes' k, domains = domains k, favorite = favorite k,
      entry_id = entry_id k, createdAt = createdAt k, lastUsed = lastUsed k,
      usageCount = usageCount k, expiresAt = expiresAt k, color = color k,
      rateLimit = rateLimit k, estimatedCost = estimatedCost k\<rparr>"

text \<open>
  The loop of \<^verbatim>\<open>getAllKeys\<close>: an entry whose decryption throws is logged and left out.
\<close>

fun decrypt_all :: "string \<Rightarrow> blob entry list \<Rightarrow> string entry list" where
  "decrypt_all password [] = []"
| "decrypt_all password (k # ks) =
     (case decryptData (keyValue k) password of
        Inl err \<Rightarrow> decrypt_all password ks
      | Inr decryptedValue \<Rightarrow> with_keyValue k decryptedValue # decrypt_all password ks)"

text \<open>
  \<^verbatim>\<open>Array.prototype.sort\<close> with a comparator is stable (ECMAScript 2019): an insertion
  sort that puts an element before the first one it does not compare greater than.
\<close>

fun sort_insert :: "('a \<Rightarrow> 'a \<Rightarrow> int) \<Rightarrow> 'a \<Rightarrow> 'a list \<Rightarrow> 'a list" where
  "sort_insert cmp x [] = [x]"
| "sort_insert cmp x (y # ys) =
     (if cmp x y \<le> 0 then x # y # ys else y # sort_insert cmp x ys)"

fun js_sort :: "('a \<Rightarrow> 'a \<Rightarrow> int) \<Rightarrow> 'a list \<Rightarrow> 'a list" where
  "js_sort cmp [] = []"
| "js_sort cmp (x # xs) = sort_insert cmp x (js_sort cmp xs)"

text \<open>The comparator of \<^verbatim>\<open>getAllKeys\<close>: "Sort by favorite, then by last used".\<close>

definition compareKeys :: "('v, 'z) entry_scheme \<Rightarrow> ('v, 'z) entry_scheme \<Rightarrow> int" where
  "compareKeys a b =
     (if favorite a \<and> \<not> favorite b then - 1
      else if \<not> favorite a \<and> favorite b then 1
      else or0 (lastUsed b) - or0 (lastUsed a))"

definition getAllKeys :: "env \<Rightarrow> ext_state \<Rightarrow> (error + string entry list) \<times> ext_state" where
  "getAllKeys e s =
     (if \<not> isUnlocked s then (Inl VaultLocked, s)
      else
        let data = getStorageData s;
            decrypted = decrypt_all (session_password s)
                          (case keys data of None \<Rightarrow> [] | Some ks \<Rightarrow> ks)
        in (Inr (js_sort compareKeys decrypted), updateLastActivity e s))"

definition getKey :: "env \<Rightarrow> string \<Rightarrow> ext_state \<Rightarrow> (error + string entry) \<times> ext_state" where
  "getKey e i s =
     (if \<not> isUnlocked s then (Inl VaultLocked, s)
      else case keys (getStorageData s) of
          None \<Rightarrow> (Inl TypeError, s)
        | Some ks \<Rightarrow>
            (case find (\<lambda>k. entry_id k = i) ks of
               None \<Rightarrow> (Inl KeyNotFound, s)
             | Some k \<Rightarrow>
                 (case decryptData (keyValue k) (session_password s) of
                    Inl err \<Rightarrow> (Inl err, s)
                  | Inr decryptedValue \<Rightarrow>
                      (Inr (with_keyValue k decryptedValue), updateLastActivity e s))))"

text \<open>The argument of \<^verbatim>\<open>addKey\<close>; the optional properties are the ones it defaults.\<close>

record key_data =
  kd_serviceName :: string
  kd_keyValue :: string
  kd_environment :: "string option"
  kd_tags :: "string list option"
  kd_expiresAt :: "int option"
  kd_notes :: "string option"
  kd_domains :: "string list option"
  kd_color :: "string option"
  kd_favorite :: "bool option"
  kd_rateLimit :: "string option"

definition addKey :: "env \<Rightarrow> key_data \<Rightarrow> ext_state \<Rightarrow> (error + string) \<times> ext_state" where
  "addKey e keyData s =
     (if \<not> isUnlocked s then (Inl VaultLocked, s)
      else
        let encryptedValue = encryptData (salt e) (iv e) (kd_keyValue keyData) (session_password s);
            newKey =
              \<lparr>serviceName = kd_serviceName keyData,
               keyValue = encryptedValue,
               environment = orElse (kd_environment keyData) ''production'',
               tags = (case kd_tags keyData of None \<Rightarrow> [] | Some ts \<Rightarrow> ts),
               notes' = orElse (kd_notes keyData) [],
               domains = (case kd_domains keyData of None \<Rightarrow> [] | Some ds \<Rightarrow> ds),
               favorite = (case kd_favorite keyData of None \<Rightarrow> False | Some f \<Rightarrow> f),
               entry_id = key_id e,
               createdAt = now e,
               lastUsed = None,
               usageCount = 0,
               expiresAt = (case kd_expiresAt keyData of None \<Rightarrow> None
                             | Some t \<Rightarrow> if t = 0 then None else Some t),
               color = orElse (kd_color keyData) (random_color e),
               rateLimit = orElse (kd_rateLimit keyData) [],
               estimatedCost = 0\<rparr>;
            data = getStorageData s;
            ks = (case keys data of None \<Rightarrow> [] | Some ks \<Rightarrow> ks)
        in (Inr (entry_id newKey),
            updateLastActivity e (setStorageData (data\<lparr>keys := Some (ks @ [newKey])\<rparr>) s)))"

text \<open>
  The \<^verbatim>\<open>updates\<close> object of \<^verbatim>\<open>updateKey\<close>: any property of an entry may be present, and
  the spread \<^verbatim>\<open>{...data.keys[keyIndex], ...updates}\<close> overwrites exactly those.
\<close>

record key_updates =
  u_serviceName :: "string option"
  u_keyValue :: "string option"
  u_environment :: "string option"
  u_tags :: "string list option"
  u_notes :: "string option"
  u_domains :: "string list option"
  u_favorite :: "bool option"
  u_id :: "string option"
  u_createdAt :: "int option"
  u_lastUsed :: "int option option"
  u_usageCount :: "int option"
  u_expiresAt :: "int option option"
  u_color :: "string option"
  u_rateLimit :: "string option"
  u_estimatedCost :: "int option"

text \<open>
  A truthy \<^verbatim>\<open>updates.keyValue\<close> is encrypted first; an empty one is falsy and is merged
  as it is.
\<close>

definition update_keyValue :: "env \<Rightarrow> string \<Rightarrow> string option \<Rightarrow> blob option" where
  "update_keyValue e password v =
     (case v of None \<Rightarrow> None
      | Some t \<Rightarrow> if t = [] then Some (Text []) else Some (encryptData (salt e) (iv e) t password))"

definition merge_updates :: "blob entry \<Rightarrow> blob option \<Rightarrow> key_updates \<Rightarrow> blob entry" where
  "merge_updates k newValue u =
     \<lparr>serviceName = spread (serviceName k) (u_serviceName u),
      keyValue = spread (keyValue k) newValue,
      environment = spread (environment k) (u_environment u),
      tags = spread (tags k) (u_tags u),
      notes' = spread (notes' k) (u_notes u),
      domains = spread (domains k) (u_domains u),
      favorite = spread (favorite k) (u_favorite u),
      entry_id = spread (entry_id k) (u_id u),
      createdAt = spread (createdAt k) (u_createdAt u),
      lastUsed = spread (lastUsed k) (u_lastUsed u),
      usageCount = spread (usageCount k) (u_usageCount u),
      expiresAt = spread (expiresAt k) (u_expiresAt u),
      color = spread (color k) (u_color u),
      rateLimit = spread (rateLimit k) (u_rateLimit u),
      estimatedCost = spread (estimatedCost k) (u_estimatedCost u)\<rparr>"

text \<open>Assignment to the first element that satisfies a predicate, if there is one.\<close>

fun update_first :: "('a \<Rightarrow> bool) \<Rightarrow> ('a \<Rightarrow> 'a) \<Rightarrow> 'a list \<Rightarrow> 'a list" where
  "update_first P f [] = []"
| "update_first P f (x # xs) = (if P x then f x # xs else x # update_first P f xs)"

definition updateKey ::
  "env \<Rightarrow> string \<Rightarrow> key_updates \<Rightarrow> ext_state \<Rightarrow> (error + unit) \<times> ext_state" where
  "updateKey e i updates s =
     (if \<not> isUnlocked s then (Inl VaultLocked, s)
      else
        let data = getStorageData s in
        case keys data of
          None \<Rightarrow> (Inl TypeError, s)
        | Some ks \<Rightarrow>
            (case find (\<lambda>k. entry_id k = i) ks of
               None \<Rightarrow> (Inl KeyNotFound, s)
             | Some found \<Rightarrow>
                 let newValue = update_keyValue e (session_password s) (u_keyValue updates);
                     ks' = update_first (\<lambda>k. entry_id k = i)
                             (\<lambda>k. merge_updates k newValue updates) ks
                 in (Inr (), updateLastActivity e (setStorageData (data\<lparr>keys := Some ks'\<rparr>) s))))"

definition deleteKey :: "env \<Rightarrow> string \<Rightarrow> ext_state \<Rightarrow> (error + unit) \<times> ext_state" where
  "deleteKey e i s =
     (if \<not> isUnlocked s then (Inl VaultLocked, s)
      else
        let data = getStorageData s in
        case keys data of
          None \<Rightarrow> (Inl TypeError, s)
        | Some ks \<Rightarrow>
            (Inr (),
             updateLastActivity e
               (setStorageData (data\<lparr>keys := Some (filter (\<lambda>k. entry_id k \<noteq> i) ks)\<rparr>) s)))"

text \<open>\<^verbatim>\<open>n || 0\<close> on a number.\<close>

definition num_or0 :: "int \<Rightarrow> int" where
  "num_or0 n = (if n = 0 then 0 else n)"

text \<open>
  \<^verbatim>\<open>n + 1\<close> on a number. A count is a whole number held in a double. Up to \<open>2 ^ 53\<close> in
  size every whole number is a double and the sum is exact. From there to \<open>2 ^ 54\<close> the
  doubles are the even numbers: the sum lies half way between two of them and is rounded
  to the one with the even significand, the multiple of four. Beyond, the doubles are four
  or more apart and the sum is rounded back to \<open>n\<close>.
\<close>

definition add_one :: "int \<Rightarrow> int" where
  "add_one n =
     (if - (2 ^ 53) \<le> n \<and> n < 2 ^ 53 then n + 1
      else if - (2 ^ 54) < n \<and> n < 2 ^ 54 then (if n mod 4 = 0 then n else n + 2)
      else n)"

text \<open>The three assignments of \<^verbatim>\<open>recordKeyUsage\<close> to the entry it found.\<close>

definition use_key :: "int \<Rightarrow> string \<Rightarrow> blob entry \<Rightarrow> blob entry" where
  "use_key t domain k =
     k\<lparr>lastUsed := Some t,
       usageCount := add_one (num_or0 (usageCount k)),
       domains := (if domain \<noteq> [] \<and> domain \<notin> set (domains k)
                   then domains k @ [domain] else domains k)\<rparr>"

definition recordKeyUsage ::
  "env \<Rightarrow> string \<Rightarrow> string \<Rightarrow> ext_state \<Rightarrow> (error + unit) \<times> ext_state" where
  "recordKeyUsage e i domain s =
     (if \<not> isUnlocked s then (Inl VaultLocked, s)
      else
        let data = getStorageData s in
        case keys data of
          None \<Rightarrow> (Inl TypeError, s)
        | Some ks \<Rightarrow>
            (case find (\<lambda>k. entry_id k = i) ks of
               None \<Rightarrow> (Inr (), s)
             | Some found \<Rightarrow>
                 let ks' = update_first (\<lambda>k. entry_id k = i) (use_key (now e) domain) ks
                 in (Inr (), updateLastActivity e (setStorageData (data\<lparr>keys := Some ks'\<rparr>) s))))"

definition getSettings :: "ext_state \<Rightarrow> settings" where
  "getSettings s =
     (case settings (getStorageData s) of None \<Rightarrow> getDefaultSettings | Some st \<Rightarrow> st)"

definition updateSettings :: "settings \<Rightarrow> ext_state \<Rightarrow> ext_state" where
  "updateSettings newSettings s =
     (let data = getStorageData s;
          current = (case settings data of None \<Rightarrow> getDefaultSettings | Some st \<Rightarrow> st)
      in setStorageData (data\<lparr>settings := Some (merge_settings current newSettings)\<rparr>) s)"

definition addAuditLog :: "env \<Rightarrow> string \<Rightarrow> ext_state \<Rightarrow> ext_state" where
  "addAuditLog e act s =
     (let data = getStorageData s in
      if enableAuditLog (getSettings s) \<noteq> Some True then s
      else
        let entry = \<lparr>audit_id = log_id e, action = act, timestamp = now e\<rparr>;
            lg = entry # (case auditLog data of None \<Rightarrow> [] | Some l \<Rightarrow> l);
            lg' = (if length lg > 1000 then take 1000 lg else lg)
        in setStorageData (data\<lparr>auditLog := Some lg'\<rparr>) s)"

definition getAuditLog :: "nat \<Rightarrow> ext_state \<Rightarrow> audit_entry list" where
  "getAuditLog limit s =
     take limit (case auditLog (getStorageData s) of None \<Rightarrow> [] | Some l \<Rightarrow> l)"

text \<open>The object \<^verbatim>\<open>exportData\<close> returns and \<^verbatim>\<open>importData\<close> receives.\<close>

record export_data =
  ex_keys :: "blob entry list option"
  ex_settings :: "settings option"
  exportedAt :: int

definition exportData :: "env \<Rightarrow> ext_state \<Rightarrow> (error + export_data) \<times> ext_state" where
  "exportData e s =
     (if \<not> isUnlocked s then (Inl VaultLocked, s)
      else
        let data = getStorageData s
        in (Inr \<lparr>ex_keys = keys data, ex_settings = settings data, exportedAt = now e\<rparr>, s))"

definition importData :: "export_data \<Rightarrow> ext_state \<Rightarrow> (error + unit) \<times> ext_state" where
  "importData importedData s =
     (if \<not> isUnlocked s then (Inl VaultLocked, s)
      else
        let data = getStorageData s in
        case keys data of
          None \<Rightarrow> (Inl TypeError, s)
        | Some ks \<Rightarrow>
            (case ex_keys importedData of
               None \<Rightarrow> (Inl TypeError, s)
             | Some imported \<Rightarrow>
                 let existingServices = set (map serviceName ks);
                     newKeys = filter (\<lambda>k. serviceName k \<notin> existingServices) imported;
                     merged =
                       merge_settings
                         (case settings data of None \<Rightarrow> no_settings | Some st \<Rightarrow> st)
                         (case ex_settings importedData of None \<Rightarrow> no_settings | Some st \<Rightarrow> st)
                 in (Inr (),
                     setStorageData (data\<lparr>keys := Some (ks @ newKeys), settings := Some merged\<rparr>) s)))"

definition getLastActivity :: "env \<Rightarrow> ext_state \<Rightarrow> int" where
  "getLastActivity e s =
     (case lastActivity (getStorageData s) of None \<Rightarrow> now e
      | Some t \<Rightarrow> if t = 0 then now e else t)"

section \<open>The service worker's message handlers\<close>

text \<open>
  A handler answers \<^verbatim>\<open>{success: true, ...}\<close> or, from its \<^verbatim>\<open>catch\<close>,
  \<^verbatim>\<open>{success: false, error: error.message}\<close>.
\<close>

datatype 'a response = Success 'a | Failure error

definition unlockVault_bg :: "env \<Rightarrow> string \<Rightarrow> ext_state \<Rightarrow> unit response \<times> ext_state" where
  "unlockVault_bg e masterPassword s =
     (let (isValid, stored) = verifyMasterPassword (salt e) masterPassword (passwordHash s);
          s1 = s\<lparr>passwordHash := stored\<rparr>
      in if \<not> isValid then (Failure InvalidMasterPassword, s1)
         else
           case unlockVault e masterPassword s1 of
             (Inl err, s2) \<Rightarrow> (Failure err, s2)
           | (Inr ok, s2) \<Rightarrow>
               let s3 = addAuditLog e ''Vault unlocked'' s2;
                   minutes = autoLockMinutes (getSettings s3)
               in (Success (),
                   if (case minutes of None \<Rightarrow> False | Some m \<Rightarrow> m > 0)
                   then s3\<lparr>autoLockAlarm := minutes\<rparr> else s3))"

definition lockVault_bg :: "env \<Rightarrow> ext_state \<Rightarrow> unit response \<times> ext_state" where
  "lockVault_bg e s =
     (Success (), (addAuditLog e ''Vault locked'' (lockVault s))\<lparr>autoLockAlarm := None\<rparr>)"

record key_filter =
  f_domain :: "string option"
  f_favorite :: "bool option"
  f_environment :: "string option"

definition apply_key_filter :: "key_filter \<Rightarrow> string entry list \<Rightarrow> string entry list" where
  "apply_key_filter f ks =
     (let k1 = (case f_domain f of
                  None \<Rightarrow> ks
                | Some d \<Rightarrow> if d = [] then ks else filter (\<lambda>key. d \<in> set (domains key)) ks);
          k2 = (if f_favorite f = Some True then filter favorite k1 else k1)
      in case f_environment f of
           None \<Rightarrow> k2
         | Some en \<Rightarrow> if en = [] then k2 else filter (\<lambda>key. environment key = en) k2)"

definition getKeys_bg ::
  "env \<Rightarrow> key_filter option \<Rightarrow> ext_state \<Rightarrow> string entry list response \<times> ext_state" where
  "getKeys_bg e flt s =
     (case getAllKeys e s of
        (Inl err, s') \<Rightarrow> (Failure err, s')
      | (Inr ks, s') \<Rightarrow>
          (Success (case flt of None \<Rightarrow> ks | Some f \<Rightarrow> apply_key_filter f ks), s'))"

definition getKeyById_bg ::
  "env \<Rightarrow> string \<Rightarrow> ext_state \<Rightarrow> string entry response \<times> ext_state" where
  "getKeyById_bg e i s =
     (case getKey e i s of
        (Inl err, s') \<Rightarrow> (Failure err, s')
      | (Inr k, s') \<Rightarrow> (Success k, s'))"

definition addKey_bg :: "env \<Rightarrow> key_data \<Rightarrow> ext_state \<Rightarrow> string response \<times> ext_state" where
  "addKey_bg e keyData s =
     (case addKey e keyData s of
        (Inl err, s') \<Rightarrow> (Failure err, s')
      | (Inr i, s') \<Rightarrow>
          (Success i, addAuditLog e (''Key added: '' @ kd_serviceName keyData) s'))"

definition updateKey_bg ::
  "env \<Rightarrow> string \<Rightarrow> key_updates \<Rightarrow> ext_state \<Rightarrow> unit response \<times> ext_state" where
  "updateKey_bg e i updates s =
     (case updateKey e i updates s of
        (Inl err, s') \<Rightarrow> (Failure err, s')
      | (Inr u, s') \<Rightarrow> (Success (), addAuditLog e (''Key updated: '' @ i) s'))"

definition deleteKey_bg :: "env \<Rightarrow> string \<Rightarrow> ext_state \<Rightarrow> unit response \<times> ext_state" where
  "deleteKey_bg e i s =
     (case getKey e i s of
        (Inl err, s1) \<Rightarrow> (Failure err, s1)
      | (Inr k, s1) \<Rightarrow>
          (case deleteKey e i s1 of
             (Inl err, s2) \<Rightarrow> (Failure err, s2)
           | (Inr u, s2) \<Rightarrow>
               (Success (), addAuditLog e (''Key deleted: '' @ serviceName k) s2)))"

definition recordKeyUsage_bg ::
  "env \<Rightarrow> string \<Rightarrow> string \<Rightarrow> ext_state \<Rightarrow> unit response \<times> ext_state" where
  "recordKeyUsage_bg e i domain s =
     (case recordKeyUsage e i domain s of
        (Inl err, s') \<Rightarrow> (Failure err, s')
      | (Inr u, s') \<Rightarrow> (Success (), s'))"

definition searchKeys_bg ::
  "env \<Rightarrow> string \<Rightarrow> ext_state \<Rightarrow> string entry list response \<times> ext_state" where
  "searchKeys_bg e query s =
     (case getAllKeys e s of
        (Inl err, s') \<Rightarrow> (Failure err, s')
      | (Inr ks, s') \<Rightarrow>
          (let lowerQuery = toLowerCase query
           in (Success
                 (filter
                    (\<lambda>key. includes_str (toLowerCase (serviceName key)) lowerQuery \<or>
                           list_ex (\<lambda>tag. includes_str (toLowerCase tag) lowerQuery) (tags key) \<or>
                           includes_str (toLowerCase (notes' key)) lowerQuery \<or>
                           includes_str (toLowerCase (environment key)) lowerQuery)
                    ks),
               s')))"

text \<open>
  \<^verbatim>\<open>JSON.stringify\<close> and \<^verbatim>\<open>JSON.parse\<close> on the exported object are the platform's;
  the two handlers that use them take them as parameters.
\<close>

definition exportVault_bg ::
  "(export_data \<Rightarrow> string) \<Rightarrow> env \<Rightarrow> string \<Rightarrow> ext_state \<Rightarrow> blob response \<times> ext_state" where
  "exportVault_bg stringify e masterPassword s =
     (case exportData e s of
        (Inl err, s') \<Rightarrow> (Failure err, s')
      | (Inr data, s') \<Rightarrow>
          (let encrypted = encryptData (salt e) (iv e) (stringify data) masterPassword
           in (Success encrypted, addAuditLog e ''Vault exported'' s')))"

definition importVault_bg ::
  "(string \<Rightarrow> export_data option) \<Rightarrow> env \<Rightarrow> blob \<Rightarrow> string \<Rightarrow> ext_state \<Rightarrow>
     unit response \<times> ext_state" where
  "importVault_bg parse e encryptedData masterPassword s =
     (case decryptData encryptedData masterPassword of
        Inl err \<Rightarrow> (Failure err, s)
      | Inr decrypted \<Rightarrow>
          (case parse decrypted of
             None \<Rightarrow> (Failure SyntaxError, s)
           | Some data \<Rightarrow>
               (case importData data s of
                  (Inl err, s') \<Rightarrow> (Failure err, s')
                | (Inr u, s') \<Rightarrow> (Success (), addAuditLog e ''Vault imported'' s'))))"

section \<open>The popup\<close>

record popup_state =
  currentScreen :: string
  popup_keys :: "string entry list"
  filteredKeys :: "string entry list"
  currentFilter :: string

definition applyFilter :: "popup_state \<Rightarrow> popup_state" where
  "applyFilter p =
     p\<lparr>filteredKeys :=
         (if currentFilter p = ''favorites'' then filter favorite (popup_keys p)
          else if currentFilter p = ''recent''
          then take 10 (js_sort (\<lambda>a b. or0 (lastUsed b) - or0 (lastUsed a)) (popup_keys p))
          else popup_keys p)\<rparr>"

definition loadKeys :: "env \<Rightarrow> popup_state \<times> ext_state \<Rightarrow> popup_state \<times> ext_state" where
  "loadKeys e ps =
     (case getKeys_bg e None (snd ps) of
        (Success ks, s') \<Rightarrow> (applyFilter ((fst ps)\<lparr>popup_keys := ks\<rparr>), s')
      | (Failure err, s') \<Rightarrow> (fst ps, s'))"

definition searchKeys :: "string \<Rightarrow> popup_state \<Rightarrow> popup_state" where
  "searchKeys query p =
     (if query = [] then p\<lparr>filteredKeys := popup_keys p\<rparr>
      else
        let lowerQuery = toLowerCase query
        in p\<lparr>filteredKeys :=
               filter
                 (\<lambda>key. includes_str (toLowerCase (serviceName key)) lowerQuery \<or>
                        list_ex (\<lambda>tag. includes_str (toLowerCase tag) lowerQuery) (tags key) \<or>
                        includes_str (toLowerCase (environment key)) lowerQuery \<or>
                        includes_str (toLowerCase (notes' key)) lowerQuery)
                 (popup_keys p)\<rparr>)"

definition lockVault_popup :: "env \<Rightarrow> popup_state \<times> ext_state \<Rightarrow> popup_state \<times> ext_state" where
  "lockVault_popup e ps =
     ((fst ps)\<lparr>popup_keys := [], currentScreen := ''unlock''\<rparr>, snd (lockVault_bg e (snd ps)))"

section \<open>The MCP server\<close>

text \<open>
  The vault file \<^verbatim>\<open>~/.keyvault/vault.json\<close> as the command-line tool writes it, and the
  session file \<^verbatim>\<open>~/.keyvault/mcp-session.json\<close>. Timestamps, ISO strings in these two
  hosts, are modelled by the clock readings they print; a property an entry of this file
  lacks reads as the falsy value of its type.
\<close>

record vault_file =
  vf_passwordHash :: blob
  vf_keys :: "blob entry list"

record session =
  session_key :: "string option"
  session_timestamp :: int

record mcp_state =
  mcp_vault :: "vault_file option"
  mcp_sessionKey :: "string option"
  vault_json :: "vault_file option"
  session_json :: "session option"

definition loadVault_mcp :: "mcp_state \<Rightarrow> mcp_state" where
  "loadVault_mcp s = s\<lparr>mcp_vault := vault_json s\<rparr>"

definition loadSession :: "int \<Rightarrow> mcp_state \<Rightarrow> bool \<times> mcp_state" where
  "loadSession t s =
     (case session_json s of
        None \<Rightarrow> (False, s)
      | Some ses \<Rightarrow>
          if t - session_timestamp ses < 3600000
          then (True, s\<lparr>mcp_sessionKey := session_key ses\<rparr>)
          else (False, s))"

definition saveSession :: "int \<Rightarrow> mcp_state \<Rightarrow> mcp_state" where
  "saveSession t s =
     s\<lparr>session_json := Some \<lparr>session_key = mcp_sessionKey s, session_timestamp = t\<rparr>\<rparr>"

text \<open>What a tool puts into the text of its answer.\<close>

record list_item =
  li_serviceName :: string
  li_environment :: string
  li_tags :: "string list"
  hasExpiration :: bool
  li_lastUsed :: "int option"
  li_usageCount :: int

record search_item =
  si_serviceName :: string
  si_environment :: string
  si_tags :: "string list"
  si_notes :: string

record resource_item =
  ri_id :: string
  ri_serviceName :: string
  ri_environment :: string
  ri_tags :: "string list"
  ri_createdAt :: int
  ri_lastUsed :: "int option"
  ri_usageCount :: int

datatype tool_text =
    VaultNotFoundText
  | InvalidPasswordText
  | UnlockedText nat
  | FoundKeys "list_item list"
  | MatchingKeys "search_item list"
  | RetrievedKey string string string
  | OtherEnvironment string string "string list"
  | KeyNotFoundText string
  | ErrorText error

record tool_result =
  content :: tool_text
  isError :: bool

definition unlockVault_mcp :: "int \<Rightarrow> string \<Rightarrow> mcp_state \<Rightarrow> tool_result \<times> mcp_state" where
  "unlockVault_mcp t password s =
     (let s1 = loadVault_mcp s in
      case mcp_vault s1 of
        None \<Rightarrow> (\<lparr>content = VaultNotFoundText, isError = False\<rparr>, s1)
      | Some v \<Rightarrow>
          (let passwordHash = Sha256Hex password in
           if passwordHash \<noteq> vf_passwordHash v
           then (\<lparr>content = InvalidPasswordText, isError = True\<rparr>, s1)
           else
             (\<lparr>content = UnlockedText (length (vf_keys v)), isError = False\<rparr>,
              saveSession t (s1\<lparr>mcp_sessionKey := Some password\<rparr>))))"

text \<open>\<^verbatim>\<open>!this.sessionKey\<close>: \<^verbatim>\<open>null\<close> and the empty string are falsy.\<close>

definition falsy :: "string option \<Rightarrow> bool" where
  "falsy x = (case x of None \<Rightarrow> True | Some k \<Rightarrow> k = [])"

definition requireUnlocked :: "int \<Rightarrow> mcp_state \<Rightarrow> (error + unit) \<times> mcp_state" where
  "requireUnlocked t s =
     (let s1 = snd (loadSession t (loadVault_mcp s)) in
      if mcp_vault s1 = None then (Inl VaultNotFound, s1)
      else if falsy (mcp_sessionKey s1) then (Inl VaultLocked, s1)
      else (Inr (), s1))"

definition the_keys :: "mcp_state \<Rightarrow> blob entry list" where
  "the_keys s = (case mcp_vault s of None \<Rightarrow> [] | Some v \<Rightarrow> vf_keys v)"

definition listApiKeys ::
  "int \<Rightarrow> string option \<Rightarrow> string list option \<Rightarrow> mcp_state \<Rightarrow>
     (error + tool_result) \<times> mcp_state" where
  "listApiKeys t env_arg tags_arg s =
     (case requireUnlocked t s of
        (Inl err, s1) \<Rightarrow> (Inl err, s1)
      | (Inr u, s1) \<Rightarrow>
          (let ks0 = the_keys s1;
               ks1 = (if falsy env_arg then ks0
                      else filter (\<lambda>k. Some (environment k) = env_arg) ks0);
               ks2 = (case tags_arg of
                        None \<Rightarrow> ks1
                      | Some ts \<Rightarrow>
                          if length ts > 0
                          then filter (\<lambda>k. list_ex (\<lambda>tag. tag \<in> set (tags k)) ts) ks1
                          else ks1);
               keysList =
                 map (\<lambda>key.
                        \<lparr>li_serviceName = serviceName key,
                         li_environment = environment key,
                         li_tags = tags key,
                         hasExpiration = (case expiresAt key of None \<Rightarrow> False | Some x \<Rightarrow> x \<noteq> 0),
                         li_lastUsed = lastUsed key,
                         li_usageCount = usageCount key\<rparr>) ks2
           in (Inr \<lparr>content = FoundKeys keysList, isError = False\<rparr>, s1)))"

definition searchApiKeys ::
  "int \<Rightarrow> string \<Rightarrow> mcp_state \<Rightarrow> (error + tool_result) \<times> mcp_state" where
  "searchApiKeys t query s =
     (case requireUnlocked t s of
        (Inl err, s1) \<Rightarrow> (Inl err, s1)
      | (Inr u, s1) \<Rightarrow>
          (let lowerQuery = toLowerCase query;
               results =
                 filter
                   (\<lambda>key. includes_str (toLowerCase (serviceName key)) lowerQuery \<or>
                          list_ex (\<lambda>tag. includes_str (toLowerCase tag) lowerQuery) (tags key) \<or>
                          (notes' key \<noteq> [] \<and> includes_str (toLowerCase (notes' key)) lowerQuery))
                   (the_keys s1);
               resultsList =
                 map (\<lambda>key.
                        \<lparr>si_serviceName = serviceName key,
                         si_environment = environment key,
                         si_tags = tags key,
                         si_notes = notes' key\<rparr>) results
           in (Inr \<lparr>content = MatchingKeys resultsList, isError = False\<rparr>, s1)))"

text \<open>
  \<^verbatim>\<open>decrypt\<close>: \<^verbatim>\<open>createDecipher('aes-256-cbc', this.sessionKey)\<close>. Under the password that
  produced the ciphertext it returns the text; otherwise \<^verbatim>\<open>decipher.final\<close> throws.
\<close>

fun decrypt_mcp :: "blob \<Rightarrow> string \<Rightarrow> error + string" where
  "decrypt_mcp (CbcHex password data) k =
     (if password = k then Inr data else Inl DecryptionFailed)"
| "decrypt_mcp _ k = Inl DecryptionFailed"

definition getApiKey ::
  "int \<Rightarrow> string \<Rightarrow> string option \<Rightarrow> mcp_state \<Rightarrow> (error + tool_result) \<times> mcp_state" where
  "getApiKey t name env_arg s =
     (case requireUnlocked t s of
        (Inl err, s1) \<Rightarrow> (Inl err, s1)
      | (Inr u, s1) \<Rightarrow>
          (let env_name = (case env_arg of None \<Rightarrow> ''development'' | Some en \<Rightarrow> en);
               same_name = (\<lambda>k. toLowerCase (serviceName k) = toLowerCase name);
               wanted = (\<lambda>k. same_name k \<and> environment k = env_name)
           in case find wanted (the_keys s1) of
                None \<Rightarrow>
                  (case find same_name (the_keys s1) of
                     Some anyEnvKey \<Rightarrow>
                       (Inr \<lparr>content =
                               OtherEnvironment name (environment anyEnvKey)
                                 (map environment (filter same_name (the_keys s1))),
                             isError = True\<rparr>, s1)
                   | None \<Rightarrow> (Inr \<lparr>content = KeyNotFoundText name, isError = True\<rparr>, s1))
              | Some key \<Rightarrow>
                  (case decrypt_mcp (keyValue key)
                          (case mcp_sessionKey s1 of None \<Rightarrow> [] | Some k \<Rightarrow> k) of
                     Inl err \<Rightarrow> (Inl err, s1)
                   | Inr decrypted \<Rightarrow>
                       (let used = (\<lambda>k. k\<lparr>lastUsed := Some t,
                                            usageCount := add_one (num_or0 (usageCount k))\<rparr>);
                            v = (case mcp_vault s1 of
                                   None \<Rightarrow> None
                                 | Some v \<Rightarrow>
                                     Some (v\<lparr>vf_keys := update_first wanted used (vf_keys v)\<rparr>))
                        in (Inr \<lparr>content = RetrievedKey name env_name decrypted,
                                 isError = False\<rparr>,
                            s1\<lparr>mcp_vault := v, vault_json := v\<rparr>)))))"

text \<open>
  The handler of \<^verbatim>\<open>ReadResource\<close> for \<^verbatim>\<open>keyvault://keys\<close>, and the \<^verbatim>\<open>catch\<close> of the
  tool dispatcher.
\<close>

definition readKeysResource :: "mcp_state \<Rightarrow> (error + resource_item list) \<times> mcp_state" where
  "readKeysResource s =
     (let s1 = loadVault_mcp s in
      case mcp_vault s1 of
        None \<Rightarrow> (Inl VaultNotFound, s1)
      | Some v \<Rightarrow>
          (Inr (map (\<lambda>key.
                       \<lparr>ri_id = entry_id key,
                        ri_serviceName = serviceName key,
                        ri_environment = environment key,
                        ri_tags = tags key,
                        ri_createdAt = createdAt key,
                        ri_lastUsed = lastUsed key,
                        ri_usageCount = usageCount key\<rparr>) (vf_keys v)),
           s1))"

definition callTool :: "(error + tool_result) \<times> mcp_state \<Rightarrow> tool_result \<times> mcp_state" where
  "callTool r =
     (case r of
        (Inl err, s) \<Rightarrow> (\<lparr>content = ErrorText err, isError = True\<rparr>, s)
      | (Inr res, s) \<Rightarrow> (res, s))"

section \<open>The command-line tool\<close>

text \<open>
  One run of the tool: the vault object and the session key in memory, the vault file,
  and the last-access stamp of the configuration file. The password typed at the prompt
  is an argument.
\<close>

record cli_state =
  cli_vault :: "vault_file option"
  cli_sessionKey :: "string option"
  cli_vault_json :: "vault_file option"
  lastAccess :: "int option"

definition loadVault_cli :: "cli_state \<Rightarrow> cli_state" where
  "loadVault_cli s =
     (case cli_vault_json s of None \<Rightarrow> s | Some v \<Rightarrow> s\<lparr>cli_vault := Some v\<rparr>)"

definition verifyPassword :: "string \<Rightarrow> blob \<Rightarrow> bool" where
  "verifyPassword password h = (Sha256Hex password = h)"

definition unlockVault_cli :: "int \<Rightarrow> string \<Rightarrow> cli_state \<Rightarrow> (error + unit) \<times> cli_state" where
  "unlockVault_cli t typed s =
     (let s1 = loadVault_cli s in
      case cli_vault s1 of
        None \<Rightarrow> (Inl VaultNotFound, s1)
      | Some v \<Rightarrow>
          if \<not> verifyPassword typed (vf_passwordHash v) then (Inl InvalidPassword, s1)
          else (Inr (), s1\<lparr>cli_sessionKey := Some typed, lastAccess := Some t\<rparr>))"

definition requireUnlocked_cli :: "int \<Rightarrow> string \<Rightarrow> cli_state \<Rightarrow> (error + unit) \<times> cli_state" where
  "requireUnlocked_cli t typed s =
     (let s1 = loadVault_cli s in
      if cli_vault s1 = None then (Inl VaultNotFound, s1)
      else if falsy (cli_sessionKey s1) then unlockVault_cli t typed s1
      else (Inr (), s1))"

text \<open>\<^verbatim>\<open>listKeys\<close> prints one row per key: the identifier's first twelve characters, the
  service, the environment and the tags.\<close>

definition listKeys_cli ::
  "int \<Rightarrow> string \<Rightarrow> string option \<Rightarrow> cli_state \<Rightarrow>
     (error + (string \<times> string \<times> string \<times> string list) list) \<times> cli_state" where
  "listKeys_cli t typed flt s =
     (case requireUnlocked_cli t typed s of
        (Inl err, s1) \<Rightarrow> (Inl err, s1)
      | (Inr u, s1) \<Rightarrow>
          (let ks0 = (case cli_vault s1 of None \<Rightarrow> [] | Some v \<Rightarrow> vf_keys v);
               ks = (if falsy flt then ks0 else filter (\<lambda>k. Some (environment k) = flt) ks0)
           in (Inr (map (\<lambda>key. (take 12 (entry_id key), serviceName key, environment key, tags key))
                      ks),
               s1)))"

section \<open>ImportExportManager: the CSV format\<close>

definition dquote :: char where
  "dquote = CHR 0x22"

definition newline :: char where
  "newline = CHR 0x0A"

definition comma :: char where
  "comma = CHR '',''"

text \<open>
  The white space \<^verbatim>\<open>trim\<close> removes, among the code units below 256: tab, line feed,
  vertical tab, form feed, carriage return, space and the no-break space.
\<close>

definition is_space :: "char \<Rightarrow> bool" where
  "is_space c = ((of_char c :: nat) \<in> {9, 10, 11, 12, 13, 32, 160})"

definition trim :: "string \<Rightarrow> string" where
  "trim s = rev (dropWhile is_space (rev (dropWhile is_space s)))"

text \<open>\<^verbatim>\<open>s.split(sep)\<close> for a separator of one character (or a class of them).\<close>

fun split_on :: "(char \<Rightarrow> bool) \<Rightarrow> string \<Rightarrow> string list" where
  "split_on P [] = [[]]"
| "split_on P (c # cs) =
     (if P c then [] # split_on P cs
      else case split_on P cs of [] \<Rightarrow> [[c]] | w # ws \<Rightarrow> (c # w) # ws)"

fun join :: "string \<Rightarrow> string list \<Rightarrow> string" where
  "join sep [] = []"
| "join sep [x] = x"
| "join sep (x # y # ys) = x @ sep @ join sep (y # ys)"

text \<open>\<^verbatim>\<open>v.replace(/^"|"$/g, '')\<close>: a quote at the start and a quote at the end go.\<close>

definition strip_quotes :: "string \<Rightarrow> string" where
  "strip_quotes v =
     (let v1 = (case v of [] \<Rightarrow> [] | c # cs \<Rightarrow> if c = dquote then cs else v)
      in if v1 \<noteq> [] \<and> last v1 = dquote then butlast v1 else v1)"

text \<open>The loop of \<^verbatim>\<open>parseCSVLine\<close> over the characters of the line.\<close>

fun parse_loop :: "string \<Rightarrow> string \<Rightarrow> bool \<Rightarrow> string list \<Rightarrow> string list" where
  "parse_loop [] current inQuotes values = values @ [trim current]"
| "parse_loop (c # cs) current inQuotes values =
     (if c = dquote then parse_loop cs current (\<not> inQuotes) values
      else if c = comma \<and> \<not> inQuotes then parse_loop cs [] inQuotes (values @ [trim current])
      else parse_loop cs (current @ [c]) inQuotes values)"

definition parseCSVLine :: "string \<Rightarrow> string list" where
  "parseCSVLine line = map strip_quotes (parse_loop line [] False [])"

definition escapeCSV :: "string \<Rightarrow> string" where
  "escapeCSV v =
     (if v = [] then [dquote, dquote]
      else if comma \<in> set v \<or> dquote \<in> set v \<or> newline \<in> set v
      then [dquote] @ concat (map (\<lambda>c. if c = dquote then [dquote, dquote] else [c]) v) @ [dquote]
      else [dquote] @ v @ [dquote])"

definition extractTags :: "string \<Rightarrow> string list" where
  "extractTags tagString =
     (if tagString = [] then []
      else filter (\<lambda>t. t \<noteq> [])
             (map trim (split_on (\<lambda>c. c = comma \<or> c = CHR '';'') tagString)))"

record csv_mapping =
  m_serviceName :: int
  m_keyValue :: int
  m_environment :: int
  m_tags :: int
  m_notes :: int

definition detect_header :: "string \<times> int \<Rightarrow> csv_mapping \<Rightarrow> csv_mapping" where
  "detect_header hi m =
     (let h = toLowerCase (fst hi); index = snd hi;
          m1 = (if includes_str h ''service'' \<or> includes_str h ''name'' \<or> includes_str h ''title''
                then m\<lparr>m_serviceName := index\<rparr> else m);
          m2 = (if includes_str h ''key'' \<or> includes_str h ''password'' \<or>
                   includes_str h ''secret'' \<or> includes_str h ''token''
                then m1\<lparr>m_keyValue := index\<rparr> else m1);
          m3 = (if includes_str h ''environment'' \<or> includes_str h ''env''
                then m2\<lparr>m_environment := index\<rparr> else m2);
          m4 = (if includes_str h ''tag'' then m3\<lparr>m_tags := index\<rparr> else m3)
      in if includes_str h ''note'' \<or> includes_str h ''description''
         then m4\<lparr>m_notes := index\<rparr> else m4)"

definition detectCSVMapping :: "string list \<Rightarrow> csv_mapping" where
  "detectCSVMapping headers =
     fold detect_header (zip headers (map int [0..<length headers]))
       \<lparr>m_serviceName = - 1, m_keyValue = - 1, m_environment = - 1, m_tags = - 1,
        m_notes = - 1\<rparr>"

text \<open>\<^verbatim>\<open>values[i]\<close>: \<^verbatim>\<open>undefined\<close> outside the array.\<close>

definition at_index :: "string list \<Rightarrow> int \<Rightarrow> string option" where
  "at_index values i =
     (if 0 \<le> i \<and> nat i < length values then Some (values ! nat i) else None)"

text \<open>
  A key as \<^verbatim>\<open>importCSV\<close> builds it; a property read from a column the row does not
  have is \<^verbatim>\<open>undefined\<close>.
\<close>

record imported_key =
  im_serviceName :: "string option"
  im_keyValue :: string
  im_environment :: "string option"
  im_tags :: "string list"
  im_notes :: "string option"
  im_domains :: "string list"
  im_favorite :: bool

definition import_row :: "csv_mapping \<Rightarrow> string \<Rightarrow> imported_key list" where
  "import_row mapping line =
     (if trim line = [] then []
      else
        let values = parseCSVLine line in
        case at_index values (m_keyValue mapping) of
          None \<Rightarrow> []
        | Some v \<Rightarrow>
            if m_keyValue mapping = - 1 \<or> v = [] then []
            else
              [\<lparr>im_serviceName =
                  (if m_serviceName mapping \<noteq> - 1 then at_index values (m_serviceName mapping)
                   else Some ''Imported Key''),
                im_keyValue = v,
                im_environment =
                  (if m_environment mapping \<noteq> - 1 then at_index values (m_environment mapping)
                   else Some ''production''),
                im_tags =
                  (if m_tags mapping \<noteq> - 1
                   then (case at_index values (m_tags mapping) of
                           None \<Rightarrow> [] | Some ts \<Rightarrow> extractTags ts)
                   else []),
                im_notes =
                  (if m_notes mapping \<noteq> - 1 then at_index values (m_notes mapping)
                   else Some []),
                im_domains = [],
                im_favorite = False\<rparr>])"

definition importCSV :: "string \<Rightarrow> imported_key list" where
  "importCSV csvContent =
     (case split_on (\<lambda>c. c = newline) csvContent of
        [] \<Rightarrow> []
      | first # rest \<Rightarrow>
          (let headers =
                 map (\<lambda>h. toLowerCase (filter (\<lambda>c. c \<noteq> dquote) (trim h)))
                   (split_on (\<lambda>c. c = comma) first);
               mapping = detectCSVMapping headers
           in concat (map (import_row mapping) rest)))"

text \<open>
  \<^verbatim>\<open>exportToCSV\<close>. \<^verbatim>\<open>new Date(t).toISOString()\<close> is the platform's and throws a
  \<^verbatim>\<open>RangeError\<close> on a time value out of range: a parameter that answers \<open>None\<close> there.
\<close>

definition csv_headers :: "string list" where
  "csv_headers =
     [''Service Name'', ''API Key'', ''Environment'', ''Tags'', ''Notes'', ''Domains'',
      ''Created At'']"

definition export_row :: "(int \<Rightarrow> string option) \<Rightarrow> string entry \<Rightarrow> string option" where
  "export_row toISOString key =
     (case toISOString (createdAt key) of
        None \<Rightarrow> None
      | Some stamp \<Rightarrow>
          Some (join [comma]
                  [escapeCSV (serviceName key),
                   escapeCSV (keyValue key),
                   escapeCSV (environment key),
                   escapeCSV (join '', '' (tags key)),
                   escapeCSV (notes' key),
                   escapeCSV (join '', '' (domains key)),
                   stamp]))"

text \<open>The rows are built in order; the first date out of range ends the export.\<close>

fun export_rows :: "(int \<Rightarrow> string option) \<Rightarrow> string entry list \<Rightarrow> string list option" where
  "export_rows toISOString [] = Some []"
| "export_rows toISOString (key # ks) =
     (case export_row toISOString key of
        None \<Rightarrow> None
      | Some row \<Rightarrow>
          (case export_rows toISOString ks of
             None \<Rightarrow> None
           | Some rows \<Rightarrow> Some (row # rows)))"

definition exportToCSV :: "(int \<Rightarrow> string option) \<Rightarrow> string entry list \<Rightarrow> error + string" where
  "exportToCSV toISOString ks =
     (case export_rows toISOString ks of
        None \<Rightarrow> Inl RangeError
      | Some rows \<Rightarrow> Inr (join [newline] (join [comma] csv_headers # rows)))"

section \<open>Statements of the specification\<close>

text \<open>
  The query is a case-insensitive substring of a field: the field, lower-cased, is some
  text, the lower-cased query, and some more text.
\<close>

definition ci_substring :: "string \<Rightarrow> string \<Rightarrow> bool" where
  "ci_substring query field = (\<exists>pre post. toLowerCase field = pre @ toLowerCase query @ post)"

text \<open>
  The match of \<^verbatim>\<open>search(query)\<close> as the specification words it: over the service name,
  the tags, the environment and the notes.
\<close>

definition search_matches :: "string \<Rightarrow> ('v, 'z) key_base_scheme \<Rightarrow> bool" where
  "search_matches query k =
     (ci_substring query (serviceName k) \<or>
      (\<exists>t. t \<in> set (tags k) \<and> ci_substring query t) \<or>
      ci_substring query (environment k) \<or>
      ci_substring query (notes' k))"

text \<open>The same match without the environment.\<close>

definition search_matches_mcp :: "string \<Rightarrow> ('v, 'z) key_base_scheme \<Rightarrow> bool" where
  "search_matches_mcp query k =
     (ci_substring query (serviceName k) \<or>
      (\<exists>t. t \<in> set (tags k) \<and> ci_substring query t) \<or>
      ci_substring query (notes' k))"

text \<open>
  The order of the default list as the specification words it: favourites first, then
  the more recently used first with the never used last, then the more recently created
  first, then the identifiers in lexicographic order.
\<close>

fun lex_le :: "string \<Rightarrow> string \<Rightarrow> bool" where
  "lex_le [] t = True"
| "lex_le (c # s) [] = False"
| "lex_le (c # s) (d # t) = ((of_char c :: nat) < of_char d \<or> (c = d \<and> lex_le s t))"

definition claimed_before :: "('v, 'z) entry_scheme \<Rightarrow> ('v, 'z) entry_scheme \<Rightarrow> bool" where
  "claimed_before a b =
     (if favorite a \<noteq> favorite b then favorite a
      else if lastUsed a \<noteq> lastUsed b
      then (case lastUsed a of
              None \<Rightarrow> False
            | Some x \<Rightarrow> (case lastUsed b of None \<Rightarrow> True | Some y \<Rightarrow> y < x))
      else if createdAt a \<noteq> createdAt b then createdAt b < createdAt a
      else lex_le (entry_id a) (entry_id b))"

text \<open>
  What the comparator of \<^verbatim>\<open>getAllKeys\<close> orders by: a favourite before a key that is
  not one, and between two keys of the same kind the one used later first, a key never
  used counting as used at time 0.
\<close>

definition listed_before :: "('v, 'z) entry_scheme \<Rightarrow> ('v, 'z) entry_scheme \<Rightarrow> bool" where
  "listed_before a b =
     ((favorite a \<and> \<not> favorite b) \<or>
      (favorite a = favorite b \<and> or0 (lastUsed b) \<le> or0 (lastUsed a)))"

text \<open>The stored entries that decrypt under the session key, in stored order.\<close>

definition decrypted_keys :: "ext_state \<Rightarrow> string entry list" where
  "decrypted_keys s =
     decrypt_all (session_password s)
       (case keys (getStorageData s) of None \<Rightarrow> [] | Some ks \<Rightarrow> ks)"

section \<open>Example vaults\<close>

definition example_key :: "string \<Rightarrow> string \<Rightarrow> string \<Rightarrow> 'v \<Rightarrow> 'v entry" where
  "example_key i name en v =
     \<lparr>serviceName = name, keyValue = v, environment = en, tags = [], notes' = [],
      domains = [], favorite = False, entry_id = i, createdAt = 1, lastUsed = None,
      usageCount = 0, expiresAt = None, color = ''#0066FF'', rateLimit = [],
      estimatedCost = 0\<rparr>"

definition stripe_test :: "string entry" where
  "stripe_test = example_key ''1'' ''Stripe Test'' ''testing'' ''sk_test_1''"

definition stripe_live :: "string entry" where
  "stripe_live = example_key ''2'' ''Stripe Live'' ''production'' ''sk_live_2''"

definition openai :: "string entry" where
  "openai = (example_key ''3'' ''OpenAI'' ''development'' ''sk-AAA'')\<lparr>tags := [''ai'']\<rparr>"

definition popup_three :: popup_state where
  "popup_three =
     \<lparr>currentScreen = ''main'', popup_keys = [stripe_test, stripe_live, openai],
      filteredKeys = [], currentFilter = ''all''\<rparr>"

definition env0 :: env where
  "env0 = \<lparr>now = 1000, salt = [1, 2], iv = [3, 4], key_id = ''1000-abc'', log_id = ''1000-xyz'',
           random_color = ''#00A67E''\<rparr>"

text \<open>A vault file of the command-line tool with one production key, and a server that
  holds a session key for it.\<close>

definition cli_key :: "blob entry" where
  "cli_key = example_key ''5'' ''OpenAI'' ''production'' (CbcHex ''hunter2'' ''sk-AAA'')"

definition cli_file :: vault_file where
  "cli_file = \<lparr>vf_passwordHash = Sha256Hex ''hunter2'', vf_keys = [cli_key]\<rparr>"

definition mcp_unlocked :: mcp_state where
  "mcp_unlocked =
     \<lparr>mcp_vault = None, mcp_sessionKey = Some ''hunter2'', vault_json = Some cli_file,
      session_json = None\<rparr>"

text \<open>An unlocked extension vault with three keys sealed under the master password.\<close>

definition master :: string where
  "master = ''correct horse battery staple''"

definition stored_of :: "string entry \<Rightarrow> blob entry" where
  "stored_of k = with_keyValue k (encryptData [7] [8] (keyValue k) master)"

definition three_keys :: vault_data where
  "three_keys =
     \<lparr>initialized = True, keys = Some (map stored_of [stripe_test, stripe_live, openai]),
      settings = Some getDefaultSettings, auditLog = Some [], lastActivity = Some 0\<rparr>"

definition ext_three :: ext_state where
  "ext_three =
     \<lparr>sessionKey = Some master, isUnlocked = True, vaultData = Some three_keys,
      passwordHash = Some (hashPassword [9] master), autoLockAlarm = None\<rparr>"

text \<open>Two keys never used, the older one stored first; and four keys of mixed kinds.\<close>

definition older :: "string entry" where
  "older = example_key ''b'' ''GitHub'' ''production'' ''ghp_1''"

definition newer :: "string entry" where
  "newer = (example_key ''a'' ''Twilio'' ''production'' ''tw_2'')\<lparr>createdAt := 2\<rparr>"

definition unlocked_with :: "string entry list \<Rightarrow> ext_state" where
  "unlocked_with ks =
     \<lparr>sessionKey = Some master, isUnlocked = True,
      vaultData = Some (three_keys\<lparr>keys := Some (map stored_of ks)\<rparr>),
      passwordHash = Some (hashPassword [9] master), autoLockAlarm = None\<rparr>"

definition key_a :: "string entry" where
  "key_a = (example_key ''10'' ''A'' ''production'' ''va'')\<lparr>lastUsed := Some 5\<rparr>"

definition key_b :: "string entry" where
  "key_b = (example_key ''11'' ''B'' ''production'' ''vb'')\<lparr>favorite := True\<rparr>"

definition key_c :: "string entry" where
  "key_c = (example_key ''12'' ''C'' ''production'' ''vc'')\<lparr>lastUsed := Some 9\<rparr>"

definition key_d :: "string entry" where
  "key_d = (example_key ''13'' ''D'' ''production'' ''vd'')\<lparr>favorite := True, lastUsed := Some 3\<rparr>"

text \<open>The same server state with every stored key value rewritten by a function.\<close>

definition rewrite_file :: "(blob \<Rightarrow> blob) \<Rightarrow> vault_file \<Rightarrow> vault_file" where
  "rewrite_file g v = v\<lparr>vf_keys := map (\<lambda>k. k\<lparr>keyValue := g (keyValue k)\<rparr>) (vf_keys v)\<rparr>"

definition rewrite_values :: "(blob \<Rightarrow> blob) \<Rightarrow> mcp_state \<Rightarrow> mcp_state" where
  "rewrite_values g s =
     s\<lparr>mcp_vault := map_option (rewrite_file g) (mcp_vault s),
       vault_json := map_option (rewrite_file g) (vault_json s)\<rparr>"

text \<open>The plaintexts of the stored values that open under a password, in order.\<close>

fun plaintexts :: "string \<Rightarrow> blob entry list \<Rightarrow> string list" where
  "plaintexts password [] = []"
| "plaintexts password (k # ks) =
     (case decryptData (keyValue k) password of
        Inl err \<Rightarrow> plaintexts password ks
      | Inr v \<Rightarrow> v # plaintexts password ks)"

section \<open>Sequences of operations\<close>

text \<open>
  The operations the service worker dispatches to the storage manager, and a run of
  them, each with what it draws from its environment.
\<close>

datatype vault_op =
    Unlock string
  | Lock
  | GetAllKeys
  | GetKey string
  | AddKey key_data
  | UpdateKey string key_updates
  | DeleteKey string
  | RecordKeyUsage string string
  | ExportData
  | ImportData export_data
  | UpdateSettings settings
  | AddAuditLog string

fun run_op :: "env \<Rightarrow> vault_op \<Rightarrow> ext_state \<Rightarrow> ext_state" where
  "run_op e (Unlock password) s = snd (unlockVault e password s)"
| "run_op e Lock s = lockVault s"
| "run_op e GetAllKeys s = snd (getAllKeys e s)"
| "run_op e (GetKey i) s = snd (getKey e i s)"
| "run_op e (AddKey keyData) s = snd (addKey e keyData s)"
| "run_op e (UpdateKey i updates) s = snd (updateKey e i updates s)"
| "run_op e (DeleteKey i) s = snd (deleteKey e i s)"
| "run_op e (RecordKeyUsage i domain) s = snd (recordKeyUsage e i domain s)"
| "run_op e ExportData s = snd (exportData e s)"
| "run_op e (ImportData d) s = snd (importData d s)"
| "run_op e (UpdateSettings st) s = updateSettings st s"
| "run_op e (AddAuditLog a) s = addAuditLog e a s"

fun run_ops :: "(env \<times> vault_op) list \<Rightarrow> ext_state \<Rightarrow> ext_state" where
  "run_ops [] s = s"
| "run_ops (eo # rest) s = run_ops rest (run_op (fst eo) (snd eo) s)"

text \<open>The entry an identifier finds, and its usage count.\<close>

definition entry_of :: "string \<Rightarrow> ext_state \<Rightarrow> blob entry option" where
  "entry_of i s =
     (case keys (getStorageData s) of
        None \<Rightarrow> None
      | Some ks \<Rightarrow> find (\<lambda>k. entry_id k = i) ks)"

definition usage_of :: "string \<Rightarrow> ext_state \<Rightarrow> int option" where
  "usage_of i s = map_option usageCount (entry_of i s)"

text \<open>
  An operation that neither deletes the entry \<open>i\<close> nor is an update whose partial record
  carries a usage count or an identifier.
\<close>

fun keeps_counters :: "string \<Rightarrow> vault_op \<Rightarrow> bool" where
  "keeps_counters i (UpdateKey j u) = (u_usageCount u = None \<and> u_id u = None)"
| "keeps_counters i (DeleteKey j) = (j \<noteq> i)"
| "keeps_counters i other = True"

definition no_updates :: key_updates where
  "no_updates =
     \<lparr>u_serviceName = None, u_keyValue = None, u_environment = None, u_tags = None,
      u_notes = None, u_domains = None, u_favorite = None, u_id = None, u_createdAt = None,
      u_lastUsed = None, u_usageCount = None, u_expiresAt = None, u_color = None,
      u_rateLimit = None, u_estimatedCost = None\<rparr>"

definition used_four :: ext_state where
  "used_four = unlocked_with [stripe_test, openai\<lparr>usageCount := 4, lastUsed := Some 500\<rparr>]"

text \<open>A vault whose entry has been counted up to \<open>2 ^ 53\<close>.\<close>

definition used_limit :: ext_state where
  "used_limit = unlocked_with [openai\<lparr>usageCount := 2 ^ 53\<rparr>]"

definition two_ops :: "(env \<times> vault_op) list" where
  "two_ops = [(env0, RecordKeyUsage ''3'' ''api.openai.com''), (env0, DeleteKey ''1'')]"

definition reset_count :: key_updates where
  "reset_count = no_updates\<lparr>u_usageCount := Some 0\<rparr>"

section \<open>Repeated unlock attempts\<close>

text \<open>A run of unlock attempts, in the extension and in the MCP server.\<close>

fun attempts :: "(env \<times> string) list \<Rightarrow> ext_state \<Rightarrow> ext_state" where
  "attempts [] s = s"
| "attempts (a # rest) s = attempts rest (snd (unlockVault_bg (fst a) (snd a) s))"

fun attempts_mcp :: "(int \<times> string) list \<Rightarrow> mcp_state \<Rightarrow> mcp_state" where
  "attempts_mcp [] s = s"
| "attempts_mcp (a # rest) s = attempts_mcp rest (snd (unlockVault_mcp (fst a) (snd a) s))"

definition is_failure :: "'a response \<Rightarrow> bool" where
  "is_failure r = (case r of Success x \<Rightarrow> False | Failure err \<Rightarrow> True)"

text \<open>A session file that \<^verbatim>\<open>loadSession\<close> would take a session key from at time \<open>t\<close>.\<close>

definition live_session :: "int \<Rightarrow> mcp_state \<Rightarrow> bool" where
  "live_session t s =
     (case session_json s of
        None \<Rightarrow> False
      | Some ses \<Rightarrow> t - session_timestamp ses < 3600000 \<and> \<not> falsy (session_key ses))"

text \<open>A server and a command-line run that hold no session key, on the same vault file;
  five wrong guesses; a locked extension.\<close>

definition mcp_locked :: mcp_state where
  "mcp_locked =
     \<lparr>mcp_vault = None, mcp_sessionKey = None, vault_json = Some cli_file, session_json = None\<rparr>"

definition cli_locked :: cli_state where
  "cli_locked =
     \<lparr>cli_vault = None, cli_sessionKey = None, cli_vault_json = Some cli_file,
      lastAccess = None\<rparr>"

definition five_wrong :: "(int \<times> string) list" where
  "five_wrong = [(1, ''a''), (2, ''b''), (3, ''c''), (4, ''d''), (5, ''e'')]"

definition five_wrong_ext :: "(env \<times> string) list" where
  "five_wrong_ext = map (\<lambda>a. (env0, snd a)) five_wrong"

definition ext_locked :: ext_state where
  "ext_locked = lockVault ext_three"

definition wrong_backup :: blob where
  "wrong_backup = encryptData [5] [6] ''{}'' ''backup-pw''"

section \<open>The CSV round trip\<close>

text \<open>
  A field as the claim restricts it: no double quote, no newline, no white space at
  either end. A tag also has no comma and no semicolon.
\<close>

definition plain_field :: "string \<Rightarrow> bool" where
  "plain_field f = (dquote \<notin> set f \<and> newline \<notin> set f \<and> trim f = f)"

definition plain_tag :: "string \<Rightarrow> bool" where
  "plain_tag t = (plain_field t \<and> comma \<notin> set t \<and> CHR '';'' \<notin> set t)"

definition claimed_exportable :: "string entry \<Rightarrow> bool" where
  "claimed_exportable k =
     (plain_field (serviceName k) \<and> plain_field (keyValue k) \<and> keyValue k \<noteq> [] \<and>
      plain_field (environment k) \<and> plain_field (notes' k) \<and> list_all plain_tag (tags k))"

text \<open>
  What the round trip needs besides: no tag is empty, no domain holds a newline, and the
  creation time prints as a date without one.
\<close>

definition round_trips :: "(int \<Rightarrow> string option) \<Rightarrow> string entry \<Rightarrow> bool" where
  "round_trips toISOString k =
     (claimed_exportable k \<and> list_all (\<lambda>t. t \<noteq> []) (tags k) \<and>
      list_all (\<lambda>d. newline \<notin> set d) (domains k) \<and>
      (case toISOString (createdAt k) of None \<Rightarrow> False | Some stamp \<Rightarrow> newline \<notin> set stamp))"

text \<open>The key \<^verbatim>\<open>importCSV\<close> is to build from an exported entry.\<close>

definition imported_of :: "string entry \<Rightarrow> imported_key" where
  "imported_of k =
     \<lparr>im_serviceName = Some (serviceName k), im_keyValue = keyValue k,
      im_environment = Some (environment k), im_tags = tags k, im_notes = Some (notes' k),
      im_domains = [], im_favorite = False\<rparr>"

definition example_iso :: "int \<Rightarrow> string option" where
  "example_iso t = Some ''2024-01-01T00:00:00.000Z''"

definition empty_tag_key :: "string entry" where
  "empty_tag_key = (example_key ''7'' ''OpenAI'' ''production'' ''sk-AAA'')\<lparr>tags := ['''']\<rparr>"

definition csv_key :: "string entry" where
  "csv_key =
     (example_key ''8'' ''Stripe Live'' ''production'' ''sk_live_2'')
       \<lparr>tags := [''pay'', ''card x''], notes' := ''main, billing'', domains := [''stripe.com'']\<rparr>"

text \<open>The columns \<^verbatim>\<open>detectCSVMapping\<close> finds in the header \<^verbatim>\<open>exportToCSV\<close> writes.\<close>

definition export_mapping :: csv_mapping where
  "export_mapping =
     \<lparr>m_serviceName = 0, m_keyValue = 1, m_environment = 2, m_tags = 3, m_notes = 4\<rparr>"

section \<open>Strings\<close>

lemma includes_str_iff: "includes_str s q \<longleftrightarrow> (\<exists>pre post. s = pre @ q @ post)"
proof (induction s)
  case Nil
  then show ?case by simp
next
  case (Cons c s)
  show ?case
  proof
    assume "includes_str (c # s) q"
    then consider "prefix q (c # s)" | "includes_str s q" by auto
    then show "\<exists>pre post. c # s = pre @ q @ post"
    proof cases
      case 1
      then obtain post where "c # s = q @ post" by (auto simp: prefix_def)
      then have "c # s = [] @ q @ post" by simp
      then show ?thesis by blast
    next
      case 2
      with Cons.IH obtain pre post where "s = pre @ q @ post" by blast
      then have "c # s = (c # pre) @ q @ post" by simp
      then show ?thesis by blast
    qed
  next
    assume "\<exists>pre post. c # s = pre @ q @ post"
    then obtain pre post where eq: "c # s = pre @ q @ post" by blast
    show "includes_str (c # s) q"
    proof (cases pre)
      case Nil
      with eq have "prefix q (c # s)" by (simp add: prefix_def)
      then show ?thesis by simp
    next
      case (Cons a pre')
      with eq have "s = pre' @ q @ post" by simp
      with Cons.IH have "includes_str s q" by blast
      then show ?thesis by simp
    qed
  qed
qed

lemma includes_lower: "includes_str (toLowerCase f) (toLowerCase q) = ci_substring q f"
  by (simp add: includes_str_iff ci_substring_def)

lemma list_ex_tags: "list_ex (ci_substring q) ts = (\<exists>t. t \<in> set ts \<and> ci_substring q t)"
  by (auto simp: list_ex_iff)

lemma ci_substring_empty: "ci_substring [] f"
proof -
  have "toLowerCase f = [] @ toLowerCase [] @ toLowerCase f"
    by (simp add: toLowerCase_def)
  then show ?thesis unfolding ci_substring_def by blast
qed

lemma ci_substring_in_empty: "ci_substring q [] \<Longrightarrow> ci_substring q f"
  by (auto simp: ci_substring_def toLowerCase_def)

section \<open>Search\<close>

lemma popup_search: "filteredKeys (searchKeys q p) = filter (search_matches q) (popup_keys p)"
proof (cases "q = []")
  case True
  then show ?thesis
    by (simp add: searchKeys_def search_matches_def ci_substring_empty)
next
  case False
  then show ?thesis
    by (simp add: searchKeys_def Let_def search_matches_def includes_lower list_ex_tags
             cong: filter_cong)
qed

lemma worker_search:
  "getAllKeys e s = (Inr ks, s') \<Longrightarrow>
   searchKeys_bg e q s = (Success (filter (search_matches q) ks), s')"
proof -
  assume all: "getAllKeys e s = (Inr ks, s')"
  have "filter
          (\<lambda>key. includes_str (toLowerCase (serviceName key)) (toLowerCase q) \<or>
                 list_ex (\<lambda>tag. includes_str (toLowerCase tag) (toLowerCase q)) (tags key) \<or>
                 includes_str (toLowerCase (notes' key)) (toLowerCase q) \<or>
                 includes_str (toLowerCase (environment key)) (toLowerCase q)) ks
        = filter (search_matches q) ks"
    by (rule filter_cong) (auto simp: search_matches_def includes_lower list_ex_tags)
  with all show ?thesis
    by (simp add: searchKeys_bg_def Let_def)
qed

lemma mcp_search_pred:
  "(includes_str (toLowerCase (serviceName key)) (toLowerCase q) \<or>
    list_ex (\<lambda>tag. includes_str (toLowerCase tag) (toLowerCase q)) (tags key) \<or>
    (notes' key \<noteq> [] \<and> includes_str (toLowerCase (notes' key)) (toLowerCase q)))
   = search_matches_mcp q key"
  using ci_substring_in_empty[of q "serviceName key"]
  by (auto simp: search_matches_mcp_def includes_lower list_ex_tags)

lemma mcp_search:
  "requireUnlocked t s = (Inr (), s1) \<Longrightarrow>
   searchApiKeys t q s =
     (Inr \<lparr>content =
             MatchingKeys
               (map (\<lambda>key. \<lparr>si_serviceName = serviceName key, si_environment = environment key,
                            si_tags = tags key, si_notes = notes' key\<rparr>)
                  (filter (search_matches_mcp q) (the_keys s1))),
           isError = False\<rparr>, s1)"
  by (simp add: searchApiKeys_def Let_def mcp_search_pred)

text \<open>
  C7, as the code has it. The popup's \<^verbatim>\<open>searchKeys\<close> and the service worker's
  \<^verbatim>\<open>searchKeys\<close> keep exactly the entries in which the query is a case-insensitive
  substring of the service name, of a tag, of the environment or of the notes, in the
  order of the list they search. The MCP server's \<^verbatim>\<open>search_api_keys\<close> keeps exactly the
  entries in which it is a substring of the service name, of a tag or of the notes: it
  does not look at the environment.
\<close>

theorem search_fields:
  "filteredKeys (searchKeys q p) = filter (search_matches q) (popup_keys p) \<and>
   (getAllKeys e s = (Inr ks, s') \<longrightarrow>
      searchKeys_bg e q s = (Success (filter (search_matches q) ks), s')) \<and>
   (requireUnlocked t m = (Inr (), m1) \<longrightarrow>
      searchApiKeys t q m =
        (Inr \<lparr>content =
                MatchingKeys
                  (map (\<lambda>key. \<lparr>si_serviceName = serviceName key,
                               si_environment = environment key,
                               si_tags = tags key, si_notes = notes' key\<rparr>)
                     (filter (search_matches_mcp q) (the_keys m1))),
              isError = False\<rparr>, m1))"
  using popup_search worker_search mcp_search by blast

theorem search_fields_witness:
  "filter (search_matches ''ai'') (popup_keys popup_three) = [openai] \<and>
   getAllKeys env0 ext_three
     = (Inr [stripe_test, stripe_live, openai], updateLastActivity env0 ext_three) \<and>
   searchKeys_bg env0 ''ai'' ext_three
     = (Success (filter (search_matches ''ai'') [stripe_test, stripe_live, openai]),
        updateLastActivity env0 ext_three) \<and>
   filter (search_matches ''ai'') [stripe_test, stripe_live, openai] = [openai] \<and>
   requireUnlocked 2000 mcp_unlocked = (Inr (), mcp_unlocked\<lparr>mcp_vault := Some cli_file\<rparr>) \<and>
   filter (search_matches_mcp ''ai'') (the_keys (mcp_unlocked\<lparr>mcp_vault := Some cli_file\<rparr>))
     = [cli_key]"
proof -
  have a: "filteredKeys (searchKeys ''ai'' popup_three) = [openai]"
    by code_simp
  have b: "getAllKeys env0 ext_three
             = (Inr [stripe_test, stripe_live, openai], updateLastActivity env0 ext_three)"
    by code_simp
  have c: "searchKeys_bg env0 ''ai'' ext_three
             = (Success [openai], updateLastActivity env0 ext_three)"
    by code_simp
  have d: "requireUnlocked 2000 mcp_unlocked
             = (Inr (), mcp_unlocked\<lparr>mcp_vault := Some cli_file\<rparr>)"
    by code_simp
  have e: "searchApiKeys 2000 ''ai'' mcp_unlocked
             = (Inr \<lparr>content =
                       MatchingKeys
                         (map (\<lambda>key. \<lparr>si_serviceName = serviceName key,
                                      si_environment = environment key,
                                      si_tags = tags key, si_notes = notes' key\<rparr>)
                            [cli_key]),
                     isError = False\<rparr>,
                mcp_unlocked\<lparr>mcp_vault := Some cli_file\<rparr>)"
    by code_simp
  note T = search_fields [where q = "''ai''" and p = popup_three and e = env0 and s = ext_three
      and ks = "[stripe_test, stripe_live, openai]" and s' = "updateLastActivity env0 ext_three"
      and t = 2000 and m = mcp_unlocked and ?m1.0 = "mcp_unlocked\<lparr>mcp_vault := Some cli_file\<rparr>"]
  from T a have 1: "filter (search_matches ''ai'') (popup_keys popup_three) = [openai]"
    by simp
  from T b c have 2: "filter (search_matches ''ai'') [stripe_test, stripe_live, openai] = [openai]"
    by simp
  from T d e have "map (\<lambda>key :: blob entry.
                      \<lparr>si_serviceName = serviceName key, si_environment = environment key,
                       si_tags = tags key, si_notes = notes' key\<rparr>)
                     (filter (search_matches_mcp ''ai'')
                        (the_keys (mcp_unlocked\<lparr>mcp_vault := Some cli_file\<rparr>)))
                   = map (\<lambda>key :: blob entry.
                      \<lparr>si_serviceName = serviceName key, si_environment = environment key,
                       si_tags = tags key, si_notes = notes' key\<rparr>) [cli_key]"
    by simp
  moreover have "the_keys (mcp_unlocked\<lparr>mcp_vault := Some cli_file\<rparr>) = [cli_key]"
    by (simp add: the_keys_def cli_file_def)
  ultimately have 3: "filter (search_matches_mcp ''ai'')
                        (the_keys (mcp_unlocked\<lparr>mcp_vault := Some cli_file\<rparr>)) = [cli_key]"
    by (cases "search_matches_mcp ''ai'' cli_key") simp_all
  from 1 2 3 b c d show ?thesis by simp
qed

text \<open>
  The claim fails on the MCP server: the query \<^verbatim>\<open>prod\<close> is a substring of the environment
  \<^verbatim>\<open>production\<close> of the only key, and \<^verbatim>\<open>search_api_keys\<close> finds nothing.
\<close>

theorem search_environment_counterexample:
  "search_matches ''prod'' cli_key \<and>
   fst (searchApiKeys 2000 ''prod'' mcp_unlocked)
     = Inr \<lparr>content = MatchingKeys [], isError = False\<rparr>"
proof -
  have "includes_str (toLowerCase (environment cli_key)) (toLowerCase ''prod'')"
    by code_simp
  then have "ci_substring ''prod'' (environment cli_key)"
    by (simp only: includes_lower)
  then have "search_matches ''prod'' cli_key"
    by (simp add: search_matches_def)
  moreover have "fst (searchApiKeys 2000 ''prod'' mcp_unlocked)
                   = Inr \<lparr>content = MatchingKeys [], isError = False\<rparr>"
    by code_simp
  ultimately show ?thesis by simp
qed

section \<open>The order of the list\<close>

lemma compareKeys_le: "compareKeys a b \<le> 0 \<longleftrightarrow> listed_before a b"
  by (auto simp: compareKeys_def listed_before_def)

lemma set_sort_insert: "set (sort_insert cmp x xs) = insert x (set xs)"
  by (induction xs) auto

lemma set_js_sort: "set (js_sort cmp xs) = set xs"
  by (induction xs) (auto simp: set_sort_insert)

lemma mset_sort_insert: "mset (sort_insert cmp x xs) = add_mset x (mset xs)"
  by (induction xs) auto

lemma mset_js_sort: "mset (js_sort cmp xs) = mset xs"
  by (induction xs) (auto simp: mset_sort_insert)

lemma sorted_sort_insert:
  assumes total: "\<And>a b. cmp a b \<le> 0 \<or> cmp b a \<le> 0"
    and trans: "\<And>a b c. cmp a b \<le> 0 \<Longrightarrow> cmp b c \<le> 0 \<Longrightarrow> cmp a c \<le> 0"
  shows "sorted_wrt (\<lambda>a b. cmp a b \<le> 0) xs \<Longrightarrow>
         sorted_wrt (\<lambda>a b. cmp a b \<le> 0) (sort_insert cmp x xs)"
proof (induction xs)
  case Nil
  then show ?case by simp
next
  case (Cons y ys)
  show ?case
  proof (cases "cmp x y \<le> 0")
    case True
    with Cons.prems trans have "\<forall>z\<in>set (y # ys). cmp x z \<le> 0" by auto
    with True Cons.prems show ?thesis by simp
  next
    case False
    with total have "cmp y x \<le> 0" by blast
    with False Cons show ?thesis by (auto simp: set_sort_insert)
  qed
qed

lemma sorted_js_sort:
  assumes total: "\<And>a b. cmp a b \<le> 0 \<or> cmp b a \<le> 0"
    and trans: "\<And>a b c. cmp a b \<le> 0 \<Longrightarrow> cmp b c \<le> 0 \<Longrightarrow> cmp a c \<le> 0"
  shows "sorted_wrt (\<lambda>a b. cmp a b \<le> 0) (js_sort cmp xs)"
proof (induction xs)
  case Nil
  then show ?case by simp
next
  case (Cons x xs)
  from sorted_sort_insert [of cmp, OF total trans Cons.IH] show ?case by simp
qed

text \<open>Stability: the elements the comparator does not tell apart keep their order.\<close>

lemma filter_sort_insert:
  "(\<And>y. y \<in> set xs \<Longrightarrow> P x \<Longrightarrow> P y \<Longrightarrow> cmp x y \<le> 0) \<Longrightarrow>
   filter P (sort_insert cmp x xs) = (if P x then x # filter P xs else filter P xs)"
  by (induction xs) auto

lemma filter_js_sort:
  "(\<And>x y. P x \<Longrightarrow> P y \<Longrightarrow> cmp x y \<le> 0) \<Longrightarrow> filter P (js_sort cmp xs) = filter P xs"
  by (induction xs) (auto simp: filter_sort_insert)

lemma sorted_compareKeys: "sorted_wrt listed_before (js_sort compareKeys xs)"
proof -
  have "sorted_wrt (\<lambda>a b. compareKeys a b \<le> 0) (js_sort compareKeys xs)"
    by (rule sorted_js_sort) (auto simp: compareKeys_def split: if_splits)
  then show ?thesis by (simp add: compareKeys_le)
qed

lemma stable_compareKeys:
  "filter (\<lambda>k. favorite k = f \<and> or0 (lastUsed k) = t) (js_sort compareKeys xs)
     = filter (\<lambda>k. favorite k = f \<and> or0 (lastUsed k) = t) xs"
  by (rule filter_js_sort) (auto simp: compareKeys_def)

lemma getAllKeys_unlocked:
  "isUnlocked s \<Longrightarrow>
   getAllKeys e s = (Inr (js_sort compareKeys (decrypted_keys s)), updateLastActivity e s)"
  by (simp add: getAllKeys_def decrypted_keys_def Let_def)

lemma applyFilter_default:
  "currentFilter p \<noteq> ''favorites'' \<Longrightarrow> currentFilter p \<noteq> ''recent'' \<Longrightarrow>
   filteredKeys (applyFilter p) = popup_keys p"
  by (simp add: applyFilter_def)

lemma listApiKeys_all:
  "requireUnlocked t m = (Inr (), m1) \<Longrightarrow>
   listApiKeys t None None m =
     (Inr \<lparr>content =
             FoundKeys
               (map (\<lambda>key. \<lparr>li_serviceName = serviceName key, li_environment = environment key,
                            li_tags = tags key,
                            hasExpiration =
                              (case expiresAt key of None \<Rightarrow> False | Some x \<Rightarrow> x \<noteq> 0),
                            li_lastUsed = lastUsed key, li_usageCount = usageCount key\<rparr>)
                  (the_keys m1)),
           isError = False\<rparr>, m1)"
  by (simp add: listApiKeys_def Let_def falsy_def)

text \<open>
  C8, as the code has it. The list \<^verbatim>\<open>getAllKeys\<close> returns, which is the popup's default
  list, holds the entries that decrypt, each once, ordered with the favourites first and
  within each kind by \<^verbatim>\<open>lastUsed\<close> descending, a key never used counting as used at
  time 0; entries that agree on both keep their stored order, which is the order in which
  they were added. Neither \<^verbatim>\<open>createdAt\<close> nor the identifier is compared. The MCP
  server's \<^verbatim>\<open>list_api_keys\<close> without filters lists the keys in the order of the vault
  file.
\<close>

theorem default_list_order:
  "(isUnlocked s \<longrightarrow>
      getAllKeys e s = (Inr (js_sort compareKeys (decrypted_keys s)), updateLastActivity e s)) \<and>
   mset (js_sort compareKeys (decrypted_keys s)) = mset (decrypted_keys s) \<and>
   sorted_wrt listed_before (js_sort compareKeys (decrypted_keys s)) \<and>
   (\<forall>f t. filter (\<lambda>k. favorite k = f \<and> or0 (lastUsed k) = t)
             (js_sort compareKeys (decrypted_keys s))
           = filter (\<lambda>k. favorite k = f \<and> or0 (lastUsed k) = t) (decrypted_keys s)) \<and>
   (currentFilter p \<noteq> ''favorites'' \<and> currentFilter p \<noteq> ''recent'' \<longrightarrow>
      filteredKeys (applyFilter p) = popup_keys p) \<and>
   (requireUnlocked t m = (Inr (), m1) \<longrightarrow>
      listApiKeys t None None m =
        (Inr \<lparr>content =
                FoundKeys
                  (map (\<lambda>key. \<lparr>li_serviceName = serviceName key,
                               li_environment = environment key,
                               li_tags = tags key,
                               hasExpiration =
                                 (case expiresAt key of None \<Rightarrow> False | Some x \<Rightarrow> x \<noteq> 0),
                               li_lastUsed = lastUsed key, li_usageCount = usageCount key\<rparr>)
                     (the_keys m1)),
              isError = False\<rparr>, m1))"
  using getAllKeys_unlocked [of s e] mset_js_sort [of compareKeys "decrypted_keys s"]
    sorted_compareKeys [of "decrypted_keys s"] stable_compareKeys [of _ _ "decrypted_keys s"]
    applyFilter_default [of p] listApiKeys_all [of t m m1]
  by blast

theorem default_list_order_witness:
  "isUnlocked (unlocked_with [key_a, key_b, key_c, key_d]) \<and>
   getAllKeys env0 (unlocked_with [key_a, key_b, key_c, key_d])
     = (Inr [key_d, key_b, key_c, key_a],
        updateLastActivity env0 (unlocked_with [key_a, key_b, key_c, key_d])) \<and>
   sorted_wrt listed_before [key_d, key_b, key_c, key_a] \<and>
   currentFilter popup_three \<noteq> ''favorites'' \<and> currentFilter popup_three \<noteq> ''recent'' \<and>
   filteredKeys (applyFilter popup_three) = popup_keys popup_three \<and>
   requireUnlocked 2000 mcp_unlocked = (Inr (), mcp_unlocked\<lparr>mcp_vault := Some cli_file\<rparr>) \<and>
   fst (listApiKeys 2000 None None mcp_unlocked)
     = Inr \<lparr>content =
              FoundKeys
                [\<lparr>li_serviceName = ''OpenAI'', li_environment = ''production'', li_tags = [],
                  hasExpiration = False, li_lastUsed = None, li_usageCount = 0\<rparr>],
            isError = False\<rparr>"
proof -
  let ?s = "unlocked_with [key_a, key_b, key_c, key_d]"
  have u: "isUnlocked ?s"
    by (simp add: unlocked_with_def)
  have d: "decrypted_keys ?s = [key_a, key_b, key_c, key_d]"
    by code_simp
  have j: "js_sort compareKeys [key_a, key_b, key_c, key_d] = [key_d, key_b, key_c, key_a]"
    by code_simp
  have f: "currentFilter popup_three \<noteq> ''favorites'' \<and> currentFilter popup_three \<noteq> ''recent''"
    by (simp add: popup_three_def)
  have r: "requireUnlocked 2000 mcp_unlocked
             = (Inr (), mcp_unlocked\<lparr>mcp_vault := Some cli_file\<rparr>)"
    by code_simp
  have k: "the_keys (mcp_unlocked\<lparr>mcp_vault := Some cli_file\<rparr>) = [cli_key]"
    by (simp add: the_keys_def cli_file_def)
  note T = default_list_order [where s = ?s and e = env0 and p = popup_three and t = 2000
      and m = mcp_unlocked and ?m1.0 = "mcp_unlocked\<lparr>mcp_vault := Some cli_file\<rparr>"]
  from T u d j have 1:
    "getAllKeys env0 ?s = (Inr [key_d, key_b, key_c, key_a], updateLastActivity env0 ?s)"
    by simp
  from T d j have 2: "sorted_wrt listed_before [key_d, key_b, key_c, key_a]"
    by simp
  from T f have 3: "filteredKeys (applyFilter popup_three) = popup_keys popup_three"
    by simp
  from T r k have 4:
    "fst (listApiKeys 2000 None None mcp_unlocked)
       = Inr \<lparr>content =
                FoundKeys
                  [\<lparr>li_serviceName = ''OpenAI'', li_environment = ''production'', li_tags = [],
                    hasExpiration = False, li_lastUsed = None, li_usageCount = 0\<rparr>],
              isError = False\<rparr>"
    by (simp add: cli_key_def example_key_def)
  from u 1 2 f 3 r 4 show ?thesis by simp
qed

text \<open>
  The claim fails on two keys never used and not favourites: the one created first is
  listed first, where creation time descending asks for the other order.
\<close>

theorem created_at_order_counterexample:
  "getAllKeys env0 (unlocked_with [older, newer])
     = (Inr [older, newer], updateLastActivity env0 (unlocked_with [older, newer])) \<and>
   createdAt older < createdAt newer \<and>
   \<not> sorted_wrt claimed_before [older, newer]"
proof -
  have "getAllKeys env0 (unlocked_with [older, newer])
          = (Inr [older, newer], updateLastActivity env0 (unlocked_with [older, newer]))"
    by code_simp
  moreover have "createdAt older < createdAt newer"
    by (simp add: older_def newer_def example_key_def)
  moreover have "\<not> sorted_wrt claimed_before [older, newer]"
    by (simp add: claimed_before_def older_def newer_def example_key_def)
  ultimately show ?thesis by simp
qed

section \<open>What a list shows\<close>

lemma decrypt_encrypt: "decryptData (encryptData sa i v pw) pw = Inr v"
  by (simp add: encryptData_def)

lemma decrypt_all_sealed:
  "decrypt_all pw (map (\<lambda>k. with_keyValue k (encryptData sa i (keyValue k) pw)) ks) = ks"
  by (induction ks) (simp_all add: decrypt_encrypt with_keyValue_def)

lemma keyValue_decrypt_all: "map keyValue (decrypt_all pw ks) = plaintexts pw ks"
  by (induction ks) (simp_all add: with_keyValue_def split: sum.splits)

lemma requireUnlocked_rewrite:
  "requireUnlocked t (rewrite_values g s)
     = (fst (requireUnlocked t s), rewrite_values g (snd (requireUnlocked t s)))"
  by (cases "session_json s"; cases "vault_json s")
     (simp_all add: requireUnlocked_def loadSession_def loadVault_mcp_def rewrite_values_def Let_def)

lemma the_keys_rewrite:
  "the_keys (rewrite_values g s) = map (\<lambda>k. k\<lparr>keyValue := g (keyValue k)\<rparr>) (the_keys s)"
  by (cases "mcp_vault s") (simp_all add: the_keys_def rewrite_values_def rewrite_file_def)

lemma listApiKeys_rewrite:
  "fst (listApiKeys t en tg (rewrite_values g s)) = fst (listApiKeys t en tg s)"
proof (cases "requireUnlocked t s")
  case (Pair r s1)
  then have rw: "requireUnlocked t (rewrite_values g s) = (r, rewrite_values g s1)"
    by (simp add: requireUnlocked_rewrite)
  show ?thesis
  proof (cases r)
    case (Inl err)
    with Pair rw show ?thesis by (simp add: listApiKeys_def)
  next
    case (Inr u)
    with Pair rw show ?thesis
      by (simp add: listApiKeys_def Let_def the_keys_rewrite filter_map comp_def
               split: option.splits)
  qed
qed

lemma searchApiKeys_rewrite:
  "fst (searchApiKeys t q (rewrite_values g s)) = fst (searchApiKeys t q s)"
proof (cases "requireUnlocked t s")
  case (Pair r s1)
  then have rw: "requireUnlocked t (rewrite_values g s) = (r, rewrite_values g s1)"
    by (simp add: requireUnlocked_rewrite)
  show ?thesis
  proof (cases r)
    case (Inl err)
    with Pair rw show ?thesis by (simp add: searchApiKeys_def)
  next
    case (Inr u)
    with Pair rw show ?thesis
      by (simp add: searchApiKeys_def Let_def the_keys_rewrite filter_map comp_def)
  qed
qed

lemma getKeys_bg_unlocked:
  "isUnlocked s \<Longrightarrow>
   getKeys_bg e None s = (Success (js_sort compareKeys (decrypted_keys s)), updateLastActivity e s)"
  by (simp add: getKeys_bg_def getAllKeys_unlocked)

lemma searchKeys_bg_unlocked:
  "isUnlocked s \<Longrightarrow>
   searchKeys_bg e q s
     = (Success (filter (search_matches q) (js_sort compareKeys (decrypted_keys s))),
        updateLastActivity e s)"
  by (rule worker_search) (rule getAllKeys_unlocked)

lemma keyValue_decrypted_keys:
  "map keyValue (decrypted_keys s)
     = plaintexts (session_password s)
         (case keys (getStorageData s) of None \<Rightarrow> [] | Some ks \<Rightarrow> ks)"
  by (simp add: decrypted_keys_def keyValue_decrypt_all)

text \<open>
  C4, as the code has it. What the MCP server's \<^verbatim>\<open>list_api_keys\<close> and
  \<^verbatim>\<open>search_api_keys\<close> answer does not depend on the stored key values: rewriting every
  \<^verbatim>\<open>keyValue\<close> of the vault leaves the answer the same, so it holds neither ciphertext nor
  plaintext and nothing is decrypted. The extension's \<^verbatim>\<open>getKeys\<close> and \<^verbatim>\<open>searchKeys\<close>
  are different by design ("Get all keys (decrypted)"): they answer full entries, sorted,
  whose \<^verbatim>\<open>keyValue\<close> is the decrypted secret of every stored entry that opens under the
  session key.
\<close>

theorem list_views:
  "fst (listApiKeys t en tg (rewrite_values g m)) = fst (listApiKeys t en tg m) \<and>
   fst (searchApiKeys t q (rewrite_values g m)) = fst (searchApiKeys t q m) \<and>
   (isUnlocked s \<longrightarrow>
      getKeys_bg e None s
        = (Success (js_sort compareKeys (decrypted_keys s)), updateLastActivity e s) \<and>
      searchKeys_bg e q s
        = (Success (filter (search_matches q) (js_sort compareKeys (decrypted_keys s))),
           updateLastActivity e s)) \<and>
   map keyValue (decrypted_keys s)
     = plaintexts (session_password s)
         (case keys (getStorageData s) of None \<Rightarrow> [] | Some ks \<Rightarrow> ks)"
  using listApiKeys_rewrite [of t en tg g m] searchApiKeys_rewrite [of t q g m]
    getKeys_bg_unlocked [of s e] searchKeys_bg_unlocked [of s e q] keyValue_decrypted_keys [of s]
  by blast

theorem list_views_witness:
  "fst (listApiKeys 2000 None None (rewrite_values (\<lambda>v. Text []) mcp_unlocked))
     = Inr \<lparr>content =
              FoundKeys
                [\<lparr>li_serviceName = ''OpenAI'', li_environment = ''production'', li_tags = [],
                  hasExpiration = False, li_lastUsed = None, li_usageCount = 0\<rparr>],
            isError = False\<rparr> \<and>
   fst (searchApiKeys 2000 ''open'' (rewrite_values (\<lambda>v. Text []) mcp_unlocked))
     = Inr \<lparr>content =
              MatchingKeys
                [\<lparr>si_serviceName = ''OpenAI'', si_environment = ''production'', si_tags = [],
                  si_notes = []\<rparr>],
            isError = False\<rparr> \<and>
   isUnlocked ext_three \<and>
   getKeys_bg env0 None ext_three
     = (Success [stripe_test, stripe_live, openai], updateLastActivity env0 ext_three) \<and>
   plaintexts (session_password ext_three)
     (case keys (getStorageData ext_three) of None \<Rightarrow> [] | Some ks \<Rightarrow> ks)
     = [''sk_test_1'', ''sk_live_2'', ''sk-AAA'']"
proof -
  have l: "fst (listApiKeys 2000 None None mcp_unlocked)
             = Inr \<lparr>content =
                      FoundKeys
                        [\<lparr>li_serviceName = ''OpenAI'', li_environment = ''production'',
                          li_tags = [], hasExpiration = False, li_lastUsed = None,
                          li_usageCount = 0\<rparr>],
                    isError = False\<rparr>"
    by code_simp
  have f: "fst (searchApiKeys 2000 ''open'' mcp_unlocked)
             = Inr \<lparr>content =
                      MatchingKeys
                        [\<lparr>si_serviceName = ''OpenAI'', si_environment = ''production'',
                          si_tags = [], si_notes = []\<rparr>],
                    isError = False\<rparr>"
    by code_simp
  have u: "isUnlocked ext_three"
    by (simp add: ext_three_def)
  have d: "decrypted_keys ext_three = [stripe_test, stripe_live, openai]"
    by code_simp
  have j: "js_sort compareKeys [stripe_test, stripe_live, openai]
             = [stripe_test, stripe_live, openai]"
    by code_simp
  have v: "map keyValue [stripe_test, stripe_live, openai]
             = [''sk_test_1'', ''sk_live_2'', ''sk-AAA'']"
    by (simp add: stripe_test_def stripe_live_def openai_def example_key_def)
  note T = list_views [where t = 2000 and en = None and tg = None and g = "\<lambda>v. Text []"
      and m = mcp_unlocked and q = "''open''" and s = ext_three and e = env0]
  from T l f u d j v show ?thesis by simp
qed

text \<open>
  The claim fails on the extension: the list the service worker answers for the three
  stored keys carries their secrets in the clear.
\<close>

theorem list_plaintext_counterexample:
  "fst (getKeys_bg env0 None ext_three) = Success [stripe_test, stripe_live, openai] \<and>
   map keyValue [stripe_test, stripe_live, openai]
     = [''sk_test_1'', ''sk_live_2'', ''sk-AAA''] \<and>
   plaintexts master (map stored_of [stripe_test, stripe_live, openai])
     = [''sk_test_1'', ''sk_live_2'', ''sk-AAA'']"
proof -
  have "fst (getKeys_bg env0 None ext_three) = Success [stripe_test, stripe_live, openai]"
    by code_simp
  moreover have "map keyValue [stripe_test, stripe_live, openai]
                   = [''sk_test_1'', ''sk_live_2'', ''sk-AAA'']"
    by (simp add: stripe_test_def stripe_live_def openai_def example_key_def)
  moreover have "plaintexts master (map stored_of [stripe_test, stripe_live, openai])
                   = [''sk_test_1'', ''sk_live_2'', ''sk-AAA'']"
    by code_simp
  ultimately show ?thesis by simp
qed

section \<open>Usage counters\<close>

lemma add_one_ge: "n \<le> add_one n"
  by (simp add: add_one_def)

lemma add_one_exact: "- (2 ^ 53) \<le> n \<Longrightarrow> n < 2 ^ 53 \<Longrightarrow> add_one n = n + 1"
  by (simp add: add_one_def)

lemma add_one_limit: "add_one (2 ^ 53) = 2 ^ 53"
  by (simp add: add_one_def)

lemma keys_updateLastActivity:
  "keys (getStorageData (updateLastActivity e s)) = keys (getStorageData s)"
  by (simp add: updateLastActivity_def setStorageData_def getStorageData_def)

lemma entry_of_updateLastActivity: "entry_of i (updateLastActivity e s) = entry_of i s"
  by (simp add: entry_of_def keys_updateLastActivity)

lemma entry_of_set_keys:
  "entry_of i (setStorageData (d\<lparr>keys := Some ks\<rparr>) s) = find (\<lambda>k. entry_id k = i) ks"
  by (simp add: entry_of_def setStorageData_def getStorageData_def)

lemma entry_of_Some:
  "entry_of i s = Some k \<Longrightarrow>
   \<exists>ks. keys (getStorageData s) = Some ks \<and> find (\<lambda>k. entry_id k = i) ks = Some k"
  by (auto simp: entry_of_def split: option.splits)

lemma find_append_Some: "find Q xs = Some k \<Longrightarrow> find Q (xs @ ys) = Some k"
  by (induction xs) auto

lemma find_filter_other:
  "j \<noteq> i \<Longrightarrow> find (\<lambda>k. entry_id k = i) (filter (\<lambda>k. entry_id k \<noteq> j) ks)
                  = find (\<lambda>k. entry_id k = i) ks"
  by (induction ks) auto

lemma find_update_first_same:
  "(\<And>k. Q (f k) = Q k) \<Longrightarrow> find Q ks = Some k \<Longrightarrow> find Q (update_first Q f ks) = Some (f k)"
  by (induction ks) (auto split: if_splits)

lemma find_update_first:
  "(\<And>k. Q (f k) = Q k) \<Longrightarrow> find Q ks = Some k \<Longrightarrow>
   find Q (update_first P f ks) = Some k \<or> find Q (update_first P f ks) = Some (f k)"
  by (induction ks) (auto split: if_splits)

lemma unlock_entry: "entry_of i (snd (unlockVault e pw s)) = entry_of i s"
proof -
  have "entry_of i (s\<lparr>passwordHash := h\<rparr>) = entry_of i s" for h
    by (simp add: entry_of_def getStorageData_def)
  moreover have "entry_of i (s\<lparr>passwordHash := h, sessionKey := k, isUnlocked := b\<rparr>) = entry_of i s"
    for h k b
    by (simp add: entry_of_def getStorageData_def)
  ultimately show ?thesis
    by (simp add: unlockVault_def Let_def entry_of_updateLastActivity split: prod.splits)
qed

lemmas entry_simps =
  keys_updateLastActivity entry_of_updateLastActivity entry_of_set_keys unlock_entry

lemma step_entry:
  assumes "keeps_counters i op" and "entry_of i s = Some k"
  shows "\<exists>k'. entry_of i (run_op e op s) = Some k' \<and> usageCount k \<le> usageCount k'"
proof (cases op)
  case (Unlock pw)
  with assms show ?thesis by (simp add: entry_simps entry_simps)
next
  case Lock
  with assms show ?thesis by (simp add: entry_simps lockVault_def entry_of_def getStorageData_def)
next
  case GetAllKeys
  with assms show ?thesis by (simp add: entry_simps getAllKeys_def Let_def)
next
  case (GetKey j)
  with assms show ?thesis
    by (simp add: entry_simps getKey_def split: option.splits sum.splits)
next
  case (AddKey kd)
  from assms(2) obtain ks where "keys (getStorageData s) = Some ks"
    and "find (\<lambda>k. entry_id k = i) ks = Some k"
    by (auto dest: entry_of_Some)
  with AddKey assms show ?thesis
    by (simp add: entry_simps addKey_def Let_def find_append_Some)
next
  case (UpdateKey j u)
  from assms(2) obtain ks where ks: "keys (getStorageData s) = Some ks"
    and f: "find (\<lambda>k. entry_id k = i) ks = Some k"
    by (auto dest: entry_of_Some)
  from UpdateKey assms(1) have u: "u_usageCount u = None" "u_id u = None" by simp_all
  have same: "entry_id (merge_updates k v u) = entry_id k" for k v
    using u by (simp add: entry_simps merge_updates_def)
  have usage: "usageCount (merge_updates k v u) = usageCount k" for k v
    using u by (simp add: entry_simps merge_updates_def)
  show ?thesis
  proof (cases "isUnlocked s \<and> find (\<lambda>k. entry_id k = j) ks \<noteq> None")
    case False
    with UpdateKey ks assms(2) show ?thesis
      by (auto simp: entry_simps updateKey_def Let_def)
  next
    case True
    let ?f = "\<lambda>k. merge_updates k (update_keyValue e (session_password s) (u_keyValue u)) u"
    from find_update_first [of "\<lambda>k. entry_id k = i" ?f ks k "\<lambda>k. entry_id k = j"] same f
    have "find (\<lambda>k. entry_id k = i) (update_first (\<lambda>k. entry_id k = j) ?f ks) = Some k \<or>
          find (\<lambda>k. entry_id k = i) (update_first (\<lambda>k. entry_id k = j) ?f ks) = Some (?f k)"
      by simp
    with True UpdateKey ks usage show ?thesis
      by (auto simp: entry_simps updateKey_def Let_def)
  qed
next
  case (DeleteKey j)
  from assms(2) obtain ks where ks: "keys (getStorageData s) = Some ks"
    and f: "find (\<lambda>k. entry_id k = i) ks = Some k"
    by (auto dest: entry_of_Some)
  with DeleteKey assms show ?thesis
    by (simp add: entry_simps deleteKey_def Let_def find_filter_other)
next
  case (RecordKeyUsage j d)
  from assms(2) obtain ks where ks: "keys (getStorageData s) = Some ks"
    and f: "find (\<lambda>k. entry_id k = i) ks = Some k"
    by (auto dest: entry_of_Some)
  have same: "entry_id (use_key t d k) = entry_id k" for k t
    by (simp add: entry_simps use_key_def)
  have usage: "usageCount k \<le> usageCount (use_key t d k)" for k t
    by (simp add: use_key_def num_or0_def add_one_ge)
  show ?thesis
  proof (cases "isUnlocked s \<and> find (\<lambda>k. entry_id k = j) ks \<noteq> None")
    case False
    with RecordKeyUsage ks assms(2) show ?thesis
      by (auto simp: entry_simps recordKeyUsage_def Let_def)
  next
    case True
    from find_update_first [of "\<lambda>k. entry_id k = i" "use_key (now e) d" ks k
        "\<lambda>k. entry_id k = j"] same f
    have "find (\<lambda>k. entry_id k = i) (update_first (\<lambda>k. entry_id k = j) (use_key (now e) d) ks)
            = Some k \<or>
          find (\<lambda>k. entry_id k = i) (update_first (\<lambda>k. entry_id k = j) (use_key (now e) d) ks)
            = Some (use_key (now e) d k)"
      by simp
    with True RecordKeyUsage ks usage [where t = "now e"] show ?thesis
      by (auto simp: entry_simps recordKeyUsage_def Let_def)
  qed
next
  case ExportData
  with assms show ?thesis by (simp add: entry_simps exportData_def Let_def)
next
  case (ImportData d)
  from assms(2) obtain ks where ks: "keys (getStorageData s) = Some ks"
    and f: "find (\<lambda>k. entry_id k = i) ks = Some k"
    by (auto dest: entry_of_Some)
  have "entry_of i (setStorageData (dd\<lparr>keys := Some xs, settings := st\<rparr>) s)
          = find (\<lambda>k. entry_id k = i) xs" for dd xs st
    by (simp add: entry_simps entry_of_def setStorageData_def getStorageData_def)
  with ImportData ks f assms(2) show ?thesis
    by (auto simp: entry_simps importData_def Let_def find_append_Some split: option.splits)
next
  case (UpdateSettings st)
  with assms show ?thesis
    by (simp add: entry_simps updateSettings_def Let_def entry_of_def setStorageData_def getStorageData_def)
next
  case (AddAuditLog a)
  with assms show ?thesis
    by (simp add: entry_simps addAuditLog_def Let_def entry_of_def setStorageData_def getStorageData_def)
qed

lemma run_entry:
  "list_all (\<lambda>eo. keeps_counters i (snd eo)) ops \<Longrightarrow> entry_of i s = Some k \<Longrightarrow>
   \<exists>k'. entry_of i (run_ops ops s) = Some k' \<and> usageCount k \<le> usageCount k'"
proof (induction ops arbitrary: s k)
  case Nil
  then show ?case by simp
next
  case (Cons eo rest)
  from Cons.prems have keep: "keeps_counters i (snd eo)" by simp
  from step_entry [OF keep Cons.prems(2), of "fst eo"]
  obtain k1 where k1: "entry_of i (run_op (fst eo) (snd eo) s) = Some k1"
    and le1: "usageCount k \<le> usageCount k1" by blast
  from Cons.prems have "list_all (\<lambda>eo. keeps_counters i (snd eo)) rest" by simp
  from Cons.IH [OF this k1] obtain k' where
    "entry_of i (run_ops rest (run_op (fst eo) (snd eo) s)) = Some k'"
    and "usageCount k1 \<le> usageCount k'" by blast
  with le1 show ?case by auto
qed

lemma record_usage_effect:
  assumes "isUnlocked s" and "entry_of i s = Some k"
  shows "recordKeyUsage e i domain s
           = (Inr (), updateLastActivity e
                 (setStorageData ((getStorageData s)\<lparr>keys :=
                     Some (update_first (\<lambda>k. entry_id k = i) (use_key (now e) domain)
                             (the (keys (getStorageData s))))\<rparr>) s))
         \<and> entry_of i (snd (recordKeyUsage e i domain s)) = Some (use_key (now e) domain k)"
proof -
  from assms(2) obtain ks where ks: "keys (getStorageData s) = Some ks"
    and f: "find (\<lambda>k. entry_id k = i) ks = Some k"
    by (auto dest: entry_of_Some)
  have same: "entry_id (use_key t domain k) = entry_id k" for k t
    by (simp add: entry_simps use_key_def)
  from find_update_first_same [of "\<lambda>k. entry_id k = i" "use_key (now e) domain" ks k] same f
  have "find (\<lambda>k. entry_id k = i) (update_first (\<lambda>k. entry_id k = i) (use_key (now e) domain) ks)
          = Some (use_key (now e) domain k)"
    by simp
  with assms ks f show ?thesis
    by (simp add: entry_simps recordKeyUsage_def Let_def)
qed

lemma use_key_effect:
  "usageCount k \<le> usageCount (use_key t d k) \<and>
   (- (2 ^ 53) \<le> usageCount k \<and> usageCount k < 2 ^ 53 \<longrightarrow>
      usageCount (use_key t d k) = usageCount k + 1) \<and>
   (usageCount k = 2 ^ 53 \<longrightarrow> usageCount (use_key t d k) = 2 ^ 53) \<and>
   lastUsed (use_key t d k) = Some t \<and>
   set (domains (use_key t d k)) = set (domains k) \<union> (if d = [] then {} else {d})"
proof -
  have "usageCount (use_key t d k) = add_one (usageCount k)"
    by (simp add: use_key_def num_or0_def)
  moreover have "lastUsed (use_key t d k) = Some t"
    by (simp add: use_key_def)
  moreover have "set (domains (use_key t d k)) = set (domains k) \<union> (if d = [] then {} else {d})"
    by (auto simp: use_key_def)
  ultimately show ?thesis
    using add_one_ge [of "usageCount k"] add_one_exact [of "usageCount k"] add_one_limit
    by auto
qed

lemma requireUnlocked_vault:
  "requireUnlocked t m = (Inr (), m1) \<Longrightarrow> \<exists>v. mcp_vault m1 = Some v \<and> the_keys m1 = vf_keys v"
  by (auto simp: requireUnlocked_def Let_def the_keys_def split: if_splits)

lemma getApiKey_usage:
  assumes req: "requireUnlocked t m = (Inr (), m1)"
    and found: "find (\<lambda>k. toLowerCase (serviceName k) = toLowerCase name \<and>
                          environment k = (case en of None \<Rightarrow> ''development'' | Some x \<Rightarrow> x))
                  (the_keys m1) = Some key"
    and opened: "decrypt_mcp (keyValue key)
                   (case mcp_sessionKey m1 of None \<Rightarrow> [] | Some k \<Rightarrow> k) = Inr secret"
    and low: "- (2 ^ 53) \<le> usageCount key" and high: "usageCount key < 2 ^ 53"
  shows "find (\<lambda>k. toLowerCase (serviceName k) = toLowerCase name \<and>
                    environment k = (case en of None \<Rightarrow> ''development'' | Some x \<Rightarrow> x))
           (the_keys (snd (getApiKey t name en m)))
         = Some (key\<lparr>lastUsed := Some t, usageCount := usageCount key + 1\<rparr>)"
proof -
  let ?wanted = "\<lambda>k :: blob entry. toLowerCase (serviceName k) = toLowerCase name \<and>
                   environment k = (case en of None \<Rightarrow> ''development'' | Some x \<Rightarrow> x)"
  let ?used = "\<lambda>k :: blob entry.
                 k\<lparr>lastUsed := Some t, usageCount := add_one (num_or0 (usageCount k))\<rparr>"
  from requireUnlocked_vault [OF req] obtain v where v: "mcp_vault m1 = Some v"
    and ks: "the_keys m1 = vf_keys v" by blast
  have "find ?wanted (update_first ?wanted ?used (vf_keys v)) = Some (?used key)"
    using found ks by (intro find_update_first_same) simp_all
  moreover have "?used key = key\<lparr>lastUsed := Some t, usageCount := usageCount key + 1\<rparr>"
    using low high by (simp add: num_or0_def add_one_exact)
  moreover have "the_keys (snd (getApiKey t name en m))
                   = update_first ?wanted ?used (vf_keys v)"
    using req found opened v by (simp add: getApiKey_def Let_def the_keys_def)
  ultimately show ?thesis by simp
qed

text \<open>
  C6, as the code has it. Over any run of storage-manager operations in which the entry
  is not deleted and no update's partial record carries \<^verbatim>\<open>usageCount\<close> or \<^verbatim>\<open>id\<close>, the
  usage count of the entry an identifier finds never decreases. A \<^verbatim>\<open>recordKeyUsage\<close> that
  finds the entry in an unlocked vault succeeds, sets \<^verbatim>\<open>lastUsed\<close> to the current time,
  adds a non-empty domain to its domains and does not lower its usage count: it adds
  exactly one to a count \<open>n\<close> with \<open>- 2 ^ 53 \<le> n < 2 ^ 53\<close>, and leaves a count of
  \<open>2 ^ 53\<close> as it is, because the sum is a double. The MCP server's \<^verbatim>\<open>get_api_key\<close>,
  when it returns a secret, sets \<^verbatim>\<open>lastUsed\<close> of the key it found and adds one to its
  usage count, for a count in the same range. An \<^verbatim>\<open>updateKey\<close> merges whatever its
  partial record carries, a usage count included.
\<close>

theorem usage_monotone:
  "(list_all (\<lambda>eo. keeps_counters i (snd eo)) ops \<longrightarrow> usage_of i s = Some n \<longrightarrow>
      (\<exists>n'. usage_of i (run_ops ops s) = Some n' \<and> n \<le> n')) \<and>
   (isUnlocked s \<longrightarrow> entry_of i s = Some k \<longrightarrow>
      fst (recordKeyUsage e i domain s) = Inr () \<and>
      (\<exists>k'. entry_of i (snd (recordKeyUsage e i domain s)) = Some k' \<and>
            usageCount k \<le> usageCount k' \<and>
            (- (2 ^ 53) \<le> usageCount k \<and> usageCount k < 2 ^ 53 \<longrightarrow>
               usageCount k' = usageCount k + 1) \<and>
            (usageCount k = 2 ^ 53 \<longrightarrow> usageCount k' = 2 ^ 53) \<and>
            lastUsed k' = Some (now e) \<and>
            set (domains k') = set (domains k) \<union> (if domain = [] then {} else {domain}))) \<and>
   (requireUnlocked t m = (Inr (), m1) \<longrightarrow>
    find (\<lambda>k. toLowerCase (serviceName k) = toLowerCase name \<and>
               environment k = (case en of None \<Rightarrow> ''development'' | Some x \<Rightarrow> x))
      (the_keys m1) = Some key \<longrightarrow>
    decrypt_mcp (keyValue key) (case mcp_sessionKey m1 of None \<Rightarrow> [] | Some k \<Rightarrow> k)
      = Inr secret \<longrightarrow>
    - (2 ^ 53) \<le> usageCount key \<longrightarrow> usageCount key < 2 ^ 53 \<longrightarrow>
    find (\<lambda>k. toLowerCase (serviceName k) = toLowerCase name \<and>
               environment k = (case en of None \<Rightarrow> ''development'' | Some x \<Rightarrow> x))
      (the_keys (snd (getApiKey t name en m)))
      = Some (key\<lparr>lastUsed := Some t, usageCount := usageCount key + 1\<rparr>))"
proof (intro conjI impI)
  assume keep: "list_all (\<lambda>eo. keeps_counters i (snd eo)) ops" and n: "usage_of i s = Some n"
  from n obtain k0 where k0: "entry_of i s = Some k0" and "usageCount k0 = n"
    by (auto simp: usage_of_def)
  with run_entry [OF keep k0]
  show "\<exists>n'. usage_of i (run_ops ops s) = Some n' \<and> n \<le> n'"
    by (auto simp: usage_of_def)
next
  assume u: "isUnlocked s" and k: "entry_of i s = Some k"
  from record_usage_effect [OF u k, of e domain]
  show "fst (recordKeyUsage e i domain s) = Inr ()" by (simp only: fst_conv)
next
  assume u: "isUnlocked s" and k: "entry_of i s = Some k"
  from record_usage_effect [OF u k, of e domain]
  have "entry_of i (snd (recordKeyUsage e i domain s)) = Some (use_key (now e) domain k)"
    by (rule conjunct2)
  with use_key_effect [of k "now e" domain]
  show "\<exists>k'. entry_of i (snd (recordKeyUsage e i domain s)) = Some k' \<and>
            usageCount k \<le> usageCount k' \<and>
            (- (2 ^ 53) \<le> usageCount k \<and> usageCount k < 2 ^ 53 \<longrightarrow>
               usageCount k' = usageCount k + 1) \<and>
            (usageCount k = 2 ^ 53 \<longrightarrow> usageCount k' = 2 ^ 53) \<and>
            lastUsed k' = Some (now e) \<and>
            set (domains k') = set (domains k) \<union> (if domain = [] then {} else {domain})"
    by blast
next
  assume "requireUnlocked t m = (Inr (), m1)"
    and "find (\<lambda>k. toLowerCase (serviceName k) = toLowerCase name \<and>
                    environment k = (case en of None \<Rightarrow> ''development'' | Some x \<Rightarrow> x))
           (the_keys m1) = Some key"
    and "decrypt_mcp (keyValue key) (case mcp_sessionKey m1 of None \<Rightarrow> [] | Some k \<Rightarrow> k)
           = Inr secret"
    and "- (2 ^ 53) \<le> usageCount key" and "usageCount key < 2 ^ 53"
  then show "find (\<lambda>k. toLowerCase (serviceName k) = toLowerCase name \<and>
                       environment k = (case en of None \<Rightarrow> ''development'' | Some x \<Rightarrow> x))
               (the_keys (snd (getApiKey t name en m)))
             = Some (key\<lparr>lastUsed := Some t, usageCount := usageCount key + 1\<rparr>)"
    by (rule getApiKey_usage)
qed

theorem usage_monotone_witness:
  "list_all (\<lambda>eo. keeps_counters ''3'' (snd eo)) two_ops \<and>
   usage_of ''3'' used_four = Some 4 \<and>
   usage_of ''3'' (run_ops two_ops used_four) = Some 5 \<and>
   isUnlocked used_four \<and>
   entry_of ''3'' used_four = Some (stored_of (openai\<lparr>usageCount := 4, lastUsed := Some 500\<rparr>)) \<and>
   fst (recordKeyUsage env0 ''3'' ''api.openai.com'' used_four) = Inr () \<and>
   usage_of ''3'' (snd (recordKeyUsage env0 ''3'' ''api.openai.com'' used_four)) = Some 5 \<and>
   map_option domains (entry_of ''3'' (snd (recordKeyUsage env0 ''3'' ''api.openai.com'' used_four)))
     = Some [''api.openai.com''] \<and>
   isUnlocked used_limit \<and>
   usage_of ''3'' used_limit = Some (2 ^ 53) \<and>
   usage_of ''3'' (snd (recordKeyUsage env0 ''3'' ''api.openai.com'' used_limit)) = Some (2 ^ 53) \<and>
   requireUnlocked 2000 mcp_unlocked = (Inr (), mcp_unlocked\<lparr>mcp_vault := Some cli_file\<rparr>) \<and>
   map_option usageCount
     (find (\<lambda>k. toLowerCase (serviceName k) = toLowerCase ''openai'' \<and>
                 environment k = ''production'')
        (the_keys (snd (getApiKey 2000 ''openai'' (Some ''production'') mcp_unlocked))))
     = Some 1"
proof -
  let ?k = "stored_of (openai\<lparr>usageCount := 4, lastUsed := Some 500\<rparr>)"
  let ?l = "stored_of (openai\<lparr>usageCount := 2 ^ 53\<rparr>)"
  let ?m1 = "mcp_unlocked\<lparr>mcp_vault := Some cli_file\<rparr>"
  have a: "list_all (\<lambda>eo. keeps_counters ''3'' (snd eo)) two_ops"
    by (simp add: two_ops_def)
  have b: "usage_of ''3'' used_four = Some 4"
    by code_simp
  have c: "usage_of ''3'' (run_ops two_ops used_four) = Some 5"
    by code_simp
  have d: "isUnlocked used_four"
    by (simp add: used_four_def unlocked_with_def)
  have f: "entry_of ''3'' used_four = Some ?k"
    by code_simp
  have fk: "usageCount ?k = 4"
    by (simp add: stored_of_def with_keyValue_def)
  have g: "map_option domains
             (entry_of ''3'' (snd (recordKeyUsage env0 ''3'' ''api.openai.com'' used_four)))
           = Some [''api.openai.com'']"
    by code_simp
  have h: "isUnlocked used_limit"
    by (simp add: used_limit_def unlocked_with_def)
  have j: "entry_of ''3'' used_limit = Some ?l"
    by code_simp
  have jl: "usageCount ?l = 2 ^ 53"
    by (simp add: stored_of_def with_keyValue_def)
  have r: "requireUnlocked 2000 mcp_unlocked = (Inr (), ?m1)"
    by code_simp
  have w: "find (\<lambda>k. toLowerCase (serviceName k) = toLowerCase ''openai'' \<and>
                      environment k = (case Some ''production'' of
                                         None \<Rightarrow> ''development'' | Some x \<Rightarrow> x))
             (the_keys ?m1) = Some cli_key"
    by code_simp
  have o: "decrypt_mcp (keyValue cli_key)
             (case mcp_sessionKey ?m1 of None \<Rightarrow> [] | Some k \<Rightarrow> k) = Inr ''sk-AAA''"
    by code_simp
  have z: "usageCount cli_key = 0"
    by (simp add: cli_key_def example_key_def)
  note T = usage_monotone [where i = "''3''" and ops = two_ops and s = used_four and n = 4
      and k = ?k and e = env0 and domain = "''api.openai.com''" and t = 2000
      and m = mcp_unlocked and ?m1.0 = ?m1 and name = "''openai''" and en = "Some ''production''"
      and key = cli_key and secret = "''sk-AAA''"]
  note U = usage_monotone [where i = "''3''" and ops = "[]" and s = used_limit
      and n = "2 ^ 53" and k = ?l and e = env0 and domain = "''api.openai.com''" and t = 2000
      and m = mcp_unlocked and ?m1.0 = ?m1 and name = "''openai''" and en = "Some ''production''"
      and key = cli_key and secret = "''sk-AAA''"]
  from T d f have 1: "fst (recordKeyUsage env0 ''3'' ''api.openai.com'' used_four) = Inr ()"
    by blast
  from T d f obtain k' where
    "entry_of ''3'' (snd (recordKeyUsage env0 ''3'' ''api.openai.com'' used_four)) = Some k'"
    and "- (2 ^ 53) \<le> usageCount ?k \<and> usageCount ?k < 2 ^ 53 \<longrightarrow>
           usageCount k' = usageCount ?k + 1"
    by blast
  with fk have 3:
    "usage_of ''3'' (snd (recordKeyUsage env0 ''3'' ''api.openai.com'' used_four)) = Some 5"
    by (simp add: usage_of_def)
  from U h j obtain l' where
    "entry_of ''3'' (snd (recordKeyUsage env0 ''3'' ''api.openai.com'' used_limit)) = Some l'"
    and "usageCount ?l = 2 ^ 53 \<longrightarrow> usageCount l' = 2 ^ 53"
    by blast
  with jl have 4:
    "usage_of ''3'' (snd (recordKeyUsage env0 ''3'' ''api.openai.com'' used_limit)) = Some (2 ^ 53)"
    by (simp add: usage_of_def)
  from j jl have 5: "usage_of ''3'' used_limit = Some (2 ^ 53)"
    by (simp add: usage_of_def)
  from T r w o z have 2:
    "map_option usageCount
       (find (\<lambda>k. toLowerCase (serviceName k) = toLowerCase ''openai'' \<and>
                   environment k = ''production'')
          (the_keys (snd (getApiKey 2000 ''openai'' (Some ''production'') mcp_unlocked))))
     = Some 1"
    by simp
  from a b c d f 1 3 g h 5 4 r 2 show ?thesis by simp
qed

text \<open>
  The claim fails on an update whose partial record carries a usage count: a count of 4
  becomes 0.
\<close>

theorem usage_reset_counterexample:
  "usage_of ''3'' used_four = Some 4 \<and>
   fst (updateKey env0 ''3'' reset_count used_four) = Inr () \<and>
   usage_of ''3'' (snd (updateKey env0 ''3'' reset_count used_four)) = Some 0"
proof -
  have "usage_of ''3'' used_four = Some 4"
    by code_simp
  moreover have "fst (updateKey env0 ''3'' reset_count used_four) = Inr ()"
    by code_simp
  moreover have "usage_of ''3'' (snd (updateKey env0 ''3'' reset_count used_four)) = Some 0"
    by code_simp
  ultimately show ?thesis by simp
qed

section \<open>Password verification\<close>

lemma ct_loop_zero:
  "length a = length b \<Longrightarrow> ct_loop r a b = 0 \<longleftrightarrow> r = 0 \<and> a = b"
proof (induction a b arbitrary: r rule: list_induct2)
  case Nil
  then show ?case by simp
next
  case (Cons x xs y ys)
  have "xor x y = 0 \<longleftrightarrow> x = y"
    by (metis xor.left_neutral xor.assoc xor_self_eq xor.right_neutral)
  with Cons show ?case by (auto simp: or_eq_0_iff)
qed

text \<open>\<^verbatim>\<open>constantTimeEqual\<close> decides equality of the two arrays.\<close>

lemma constantTimeEqual_iff: "constantTimeEqual a b \<longleftrightarrow> a = b"
  by (auto simp: constantTimeEqual_def ct_loop_zero)

lemma verify_failed:
  "\<not> fst (verifyMasterPassword sa pw h) \<Longrightarrow> snd (verifyMasterPassword sa pw h) = h"
  by (cases "(sa, pw, h)" rule: verifyMasterPassword.cases) auto

lemma verify_again:
  "fst (verifyMasterPassword sa pw h) \<Longrightarrow>
   verifyMasterPassword sa pw (snd (verifyMasterPassword sa pw h))
     = (True, snd (verifyMasterPassword sa pw h))"
  by (cases "(sa, pw, h)" rule: verifyMasterPassword.cases) (auto simp: hashPassword_def)

lemma unlockVault_bg_failed:
  assumes "is_failure (fst (unlockVault_bg e pw s))"
  shows "unlockVault_bg e pw s = (Failure InvalidMasterPassword, s)"
proof (cases "fst (verifyMasterPassword (salt e) pw (passwordHash s))")
  case False
  with verify_failed [OF False] show ?thesis
    by (simp add: unlockVault_bg_def Let_def split_beta)
next
  case True
  with verify_again [OF True] assms show ?thesis
    by (simp add: unlockVault_bg_def unlockVault_def Let_def split_beta is_failure_def)
qed

lemma attempts_failed:
  "list_all (\<lambda>a. is_failure (fst (unlockVault_bg (fst a) (snd a) s))) as \<Longrightarrow> attempts as s = s"
  by (induction as) (simp_all add: unlockVault_bg_failed)

lemma unlockVault_bg_success:
  assumes "fst (unlockVault_bg e pw s) = Success ()"
  shows "isUnlocked (snd (unlockVault_bg e pw s)) \<and>
         sessionKey (snd (unlockVault_bg e pw s)) = Some pw"
proof (cases "fst (verifyMasterPassword (salt e) pw (passwordHash s))")
  case False
  with assms show ?thesis
    by (simp add: unlockVault_bg_def Let_def split_beta)
next
  case True
  have "isUnlocked (addAuditLog e a x) = isUnlocked x \<and>
        sessionKey (addAuditLog e a x) = sessionKey x" for a x
    by (simp add: addAuditLog_def Let_def setStorageData_def)
  moreover have "isUnlocked (updateLastActivity e x) = isUnlocked x \<and>
                 sessionKey (updateLastActivity e x) = sessionKey x" for x
    by (simp add: updateLastActivity_def setStorageData_def)
  ultimately show ?thesis
    using True verify_again [OF True]
    by (simp add: unlockVault_bg_def unlockVault_def Let_def split_beta)
qed

lemma unlockVault_mcp_failed:
  "isError (fst (unlockVault_mcp t pw m)) \<Longrightarrow>
   unlockVault_mcp t pw m = (\<lparr>content = InvalidPasswordText, isError = True\<rparr>, loadVault_mcp m)"
  by (auto simp: unlockVault_mcp_def Let_def split: option.splits if_splits)

lemma unlockVault_mcp_loaded:
  "fst (unlockVault_mcp t pw (loadVault_mcp m)) = fst (unlockVault_mcp t pw m)"
  by (simp add: unlockVault_mcp_def loadVault_mcp_def Let_def split: option.splits)

lemma loadVault_mcp_idem: "loadVault_mcp (loadVault_mcp m) = loadVault_mcp m"
  by (simp add: loadVault_mcp_def)

lemma attempts_mcp_failed:
  "list_all (\<lambda>a. isError (fst (unlockVault_mcp (fst a) (snd a) m))) as \<Longrightarrow>
   attempts_mcp as m = m \<or> attempts_mcp as m = loadVault_mcp m"
proof (induction as arbitrary: m)
  case Nil
  then show ?case by simp
next
  case (Cons a as)
  from Cons.prems have first: "isError (fst (unlockVault_mcp (fst a) (snd a) m))"
    and rest: "list_all (\<lambda>a. isError (fst (unlockVault_mcp (fst a) (snd a) m))) as"
    by simp_all
  from rest
  have "list_all (\<lambda>a. isError (fst (unlockVault_mcp (fst a) (snd a) (loadVault_mcp m)))) as"
    by (simp add: unlockVault_mcp_loaded)
  from Cons.IH [OF this] unlockVault_mcp_failed [OF first] show ?case
    by (auto simp: loadVault_mcp_idem)
qed

lemma attempts_mcp_trace:
  assumes "list_all (\<lambda>a. isError (fst (unlockVault_mcp (fst a) (snd a) m))) as"
  shows "vault_json (attempts_mcp as m) = vault_json m \<and>
         session_json (attempts_mcp as m) = session_json m \<and>
         mcp_sessionKey (attempts_mcp as m) = mcp_sessionKey m \<and>
         fst (unlockVault_mcp t pw (attempts_mcp as m)) = fst (unlockVault_mcp t pw m)"
proof -
  from attempts_mcp_failed [OF assms]
  consider "attempts_mcp as m = m" | "attempts_mcp as m = loadVault_mcp m" by blast
  then show ?thesis
  proof cases
    case 1
    then show ?thesis by simp
  next
    case 2
    have "vault_json (loadVault_mcp m) = vault_json m \<and>
          session_json (loadVault_mcp m) = session_json m \<and>
          mcp_sessionKey (loadVault_mcp m) = mcp_sessionKey m"
      by (simp add: loadVault_mcp_def)
    with 2 show ?thesis by (simp add: unlockVault_mcp_loaded)
  qed
qed

text \<open>
  C9, as the code has it. No host counts failed verifications and none delays an answer.
  In the extension a failed unlock answers \<^verbatim>\<open>Invalid master password\<close> and leaves the
  whole state as it was, so after any number of failures the next attempt is answered as
  it would have been at first; a successful one caches the password as session key. In
  the MCP server a failed unlock changes neither file nor the session key, and the next
  attempt is answered as it would have been at first.
\<close>

theorem failed_unlock_keeps_state:
  "(list_all (\<lambda>a. is_failure (fst (unlockVault_bg (fst a) (snd a) s))) as \<longrightarrow>
      attempts as s = s \<and> unlockVault_bg e pw (attempts as s) = unlockVault_bg e pw s) \<and>
   (fst (unlockVault_bg e pw s) = Success () \<longrightarrow>
      isUnlocked (snd (unlockVault_bg e pw s)) \<and>
      sessionKey (snd (unlockVault_bg e pw s)) = Some pw) \<and>
   (list_all (\<lambda>a. isError (fst (unlockVault_mcp (fst a) (snd a) m))) bs \<longrightarrow>
      vault_json (attempts_mcp bs m) = vault_json m \<and>
      session_json (attempts_mcp bs m) = session_json m \<and>
      mcp_sessionKey (attempts_mcp bs m) = mcp_sessionKey m \<and>
      fst (unlockVault_mcp t pw (attempts_mcp bs m)) = fst (unlockVault_mcp t pw m))"
  using attempts_failed [of s as] unlockVault_bg_success [of e pw s]
    attempts_mcp_trace [of m bs t pw]
  by auto

theorem failed_unlock_keeps_state_witness:
  "list_all (\<lambda>a. is_failure (fst (unlockVault_bg (fst a) (snd a) ext_locked))) five_wrong_ext \<and>
   attempts five_wrong_ext ext_locked = ext_locked \<and>
   fst (unlockVault_bg env0 master (attempts five_wrong_ext ext_locked)) = Success () \<and>
   isUnlocked (snd (unlockVault_bg env0 master ext_locked)) \<and>
   list_all (\<lambda>a. isError (fst (unlockVault_mcp (fst a) (snd a) mcp_locked))) five_wrong \<and>
   session_json (attempts_mcp five_wrong mcp_locked) = None \<and>
   fst (unlockVault_mcp 6 ''hunter2'' (attempts_mcp five_wrong mcp_locked))
     = \<lparr>content = UnlockedText 1, isError = False\<rparr>"
proof -
  have a: "list_all (\<lambda>a. is_failure (fst (unlockVault_bg (fst a) (snd a) ext_locked)))
             five_wrong_ext"
    by code_simp
  have b: "fst (unlockVault_bg env0 master ext_locked) = Success ()"
    by code_simp
  have c: "list_all (\<lambda>a. isError (fst (unlockVault_mcp (fst a) (snd a) mcp_locked))) five_wrong"
    by code_simp
  have d: "fst (unlockVault_mcp 6 ''hunter2'' mcp_locked)
             = \<lparr>content = UnlockedText 1, isError = False\<rparr>"
    by code_simp
  have f: "session_json mcp_locked = None"
    by (simp add: mcp_locked_def)
  note T = failed_unlock_keeps_state [where s = ext_locked and as = five_wrong_ext and e = env0
      and pw = master and m = mcp_locked and bs = five_wrong and t = 6]
  note U = failed_unlock_keeps_state [where s = ext_locked and as = "[]" and e = env0
      and pw = "''hunter2''" and m = mcp_locked and bs = five_wrong and t = 6]
  from T a b have 1: "attempts five_wrong_ext ext_locked = ext_locked"
    and 2: "fst (unlockVault_bg env0 master (attempts five_wrong_ext ext_locked)) = Success ()"
    and 3: "isUnlocked (snd (unlockVault_bg env0 master ext_locked))"
    by simp_all
  from U c d f have 4: "session_json (attempts_mcp five_wrong mcp_locked) = None"
    and 5: "fst (unlockVault_mcp 6 ''hunter2'' (attempts_mcp five_wrong mcp_locked))
              = \<lparr>content = UnlockedText 1, isError = False\<rparr>"
    by simp_all
  from a 1 2 3 c 4 5 show ?thesis by simp
qed

text \<open>
  The claim fails: after five wrong passwords the MCP server holds what it held after
  loading the vault file, and answers the sixth wrong password just as it answered the
  first.
\<close>

theorem no_backoff_counterexample:
  "length five_wrong = 5 \<and>
   attempts_mcp five_wrong mcp_locked = loadVault_mcp mcp_locked \<and>
   unlockVault_mcp 1 ''a'' mcp_locked
     = (\<lparr>content = InvalidPasswordText, isError = True\<rparr>, loadVault_mcp mcp_locked) \<and>
   unlockVault_mcp 6 ''f'' (attempts_mcp five_wrong mcp_locked)
     = (\<lparr>content = InvalidPasswordText, isError = True\<rparr>, loadVault_mcp mcp_locked)"
proof -
  have "length five_wrong = 5"
    by (simp add: five_wrong_def)
  moreover have "attempts_mcp five_wrong mcp_locked = loadVault_mcp mcp_locked"
    by code_simp
  moreover have "unlockVault_mcp 1 ''a'' mcp_locked
                   = (\<lparr>content = InvalidPasswordText, isError = True\<rparr>, loadVault_mcp mcp_locked)"
    by code_simp
  moreover have "unlockVault_mcp 6 ''f'' (loadVault_mcp mcp_locked)
                   = (\<lparr>content = InvalidPasswordText, isError = True\<rparr>, loadVault_mcp mcp_locked)"
    by code_simp
  ultimately show ?thesis by simp
qed

section \<open>The lock boundary\<close>

lemma storage_locked:
  assumes "\<not> isUnlocked s"
  shows "getAllKeys e s = (Inl VaultLocked, s) \<and>
         getKey e i s = (Inl VaultLocked, s) \<and>
         addKey e keyData s = (Inl VaultLocked, s) \<and>
         updateKey e i updates s = (Inl VaultLocked, s) \<and>
         deleteKey e i s = (Inl VaultLocked, s) \<and>
         recordKeyUsage e i domain s = (Inl VaultLocked, s) \<and>
         exportData e s = (Inl VaultLocked, s) \<and>
         importData d s = (Inl VaultLocked, s)"
  using assms
  by (simp add: getAllKeys_def getKey_def addKey_def updateKey_def deleteKey_def
        recordKeyUsage_def exportData_def importData_def)

lemma handlers_locked:
  assumes "\<not> isUnlocked s"
  shows "getKeys_bg e flt s = (Failure VaultLocked, s) \<and>
         searchKeys_bg e q s = (Failure VaultLocked, s) \<and>
         getKeyById_bg e i s = (Failure VaultLocked, s) \<and>
         addKey_bg e keyData s = (Failure VaultLocked, s) \<and>
         updateKey_bg e i updates s = (Failure VaultLocked, s) \<and>
         deleteKey_bg e i s = (Failure VaultLocked, s) \<and>
         recordKeyUsage_bg e i domain s = (Failure VaultLocked, s) \<and>
         exportVault_bg stringify e pw s = (Failure VaultLocked, s)"
  using storage_locked [OF assms]
  by (simp add: getKeys_bg_def searchKeys_bg_def getKeyById_bg_def addKey_bg_def
        updateKey_bg_def deleteKey_bg_def recordKeyUsage_bg_def exportVault_bg_def)

lemma import_locked:
  assumes "\<not> isUnlocked s"
  shows "importVault_bg parse e sealed pw s =
           (Failure (case decryptData sealed pw of
                       Inl err \<Rightarrow> err
                     | Inr decrypted \<Rightarrow>
                         (case parse decrypted of None \<Rightarrow> SyntaxError | Some d \<Rightarrow> VaultLocked)),
            s)"
  using storage_locked [OF assms]
  by (simp add: importVault_bg_def split: sum.splits option.splits)

lemma lock_locks:
  "\<not> isUnlocked (lockVault s) \<and> sessionKey (lockVault s) = None \<and>
   \<not> isUnlocked (snd (lockVault_bg e s)) \<and> sessionKey (snd (lockVault_bg e s)) = None \<and>
   \<not> isUnlocked (snd (lockVault_popup e ps)) \<and> popup_keys (fst (lockVault_popup e ps)) = []"
  by (simp add: lockVault_def lockVault_bg_def lockVault_popup_def addAuditLog_def Let_def
        setStorageData_def)

lemma requireUnlocked_locked:
  assumes "vault_json m \<noteq> None" and "falsy (mcp_sessionKey m)" and "\<not> live_session t m"
  shows "fst (requireUnlocked t m) = Inl VaultLocked \<and>
         vault_json (snd (requireUnlocked t m)) = vault_json m \<and>
         session_json (snd (requireUnlocked t m)) = session_json m"
  using assms
  by (auto simp: requireUnlocked_def loadSession_def loadVault_mcp_def live_session_def Let_def
           split: option.splits)

lemma tools_locked:
  assumes "vault_json m \<noteq> None" and "falsy (mcp_sessionKey m)" and "\<not> live_session t m"
  shows "fst (callTool (listApiKeys t en tg m)) = \<lparr>content = ErrorText VaultLocked, isError = True\<rparr> \<and>
         fst (callTool (searchApiKeys t q m)) = \<lparr>content = ErrorText VaultLocked, isError = True\<rparr> \<and>
         fst (callTool (getApiKey t name en m)) = \<lparr>content = ErrorText VaultLocked, isError = True\<rparr> \<and>
         vault_json (snd (callTool (listApiKeys t en tg m))) = vault_json m \<and>
         vault_json (snd (callTool (searchApiKeys t q m))) = vault_json m \<and>
         vault_json (snd (callTool (getApiKey t name en m))) = vault_json m \<and>
         session_json (snd (callTool (listApiKeys t en tg m))) = session_json m \<and>
         session_json (snd (callTool (searchApiKeys t q m))) = session_json m \<and>
         session_json (snd (callTool (getApiKey t name en m))) = session_json m"
proof -
  obtain r m1 where r: "requireUnlocked t m = (r, m1)"
    by (cases "requireUnlocked t m")
  with requireUnlocked_locked [OF assms] have "r = Inl VaultLocked"
    and "vault_json m1 = vault_json m" and "session_json m1 = session_json m"
    by simp_all
  with r show ?thesis
    by (simp add: callTool_def listApiKeys_def searchApiKeys_def getApiKey_def)
qed

lemma cli_prompts:
  assumes "cli_vault_json c = Some v" and "falsy (cli_sessionKey c)"
  shows "requireUnlocked_cli t typed c =
           (if verifyPassword typed (vf_passwordHash v)
            then (Inr (), c\<lparr>cli_vault := Some v, cli_sessionKey := Some typed, lastAccess := Some t\<rparr>)
            else (Inl InvalidPassword, c\<lparr>cli_vault := Some v\<rparr>))"
  using assms
  by (simp add: requireUnlocked_cli_def unlockVault_cli_def loadVault_cli_def Let_def)

text \<open>
  C3, as the code has it. In the extension every storage-manager operation that needs the
  session (list, get, add, update, delete, record usage, export, import) called while the
  vault is locked throws \<^verbatim>\<open>Vault is locked\<close> before it reads or writes anything; the
  service worker's handlers answer that failure and leave the state as it was, except
  that \<^verbatim>\<open>importVault\<close> decrypts and parses the backup first and answers the failure of
  that step when there is one; after \<^verbatim>\<open>lockVault\<close> the vault is locked and holds no session
  key. In the MCP server, when the vault file exists and neither the memory nor an
  unexpired session file holds a session key, the tools list, search and get answer the
  locked error and write no file. The command-line tool does not fail on a locked vault:
  it prompts for the master password, proceeds when the password verifies and fails with
  \<^verbatim>\<open>Invalid password\<close> otherwise.
\<close>

theorem locked_operations_fail:
  "(\<not> isUnlocked s \<longrightarrow>
      getAllKeys e s = (Inl VaultLocked, s) \<and>
      getKey e i s = (Inl VaultLocked, s) \<and>
      addKey e keyData s = (Inl VaultLocked, s) \<and>
      updateKey e i updates s = (Inl VaultLocked, s) \<and>
      deleteKey e i s = (Inl VaultLocked, s) \<and>
      recordKeyUsage e i domain s = (Inl VaultLocked, s) \<and>
      exportData e s = (Inl VaultLocked, s) \<and>
      importData d s = (Inl VaultLocked, s) \<and>
      getKeys_bg e flt s = (Failure VaultLocked, s) \<and>
      searchKeys_bg e q s = (Failure VaultLocked, s) \<and>
      getKeyById_bg e i s = (Failure VaultLocked, s) \<and>
      addKey_bg e keyData s = (Failure VaultLocked, s) \<and>
      updateKey_bg e i updates s = (Failure VaultLocked, s) \<and>
      deleteKey_bg e i s = (Failure VaultLocked, s) \<and>
      recordKeyUsage_bg e i domain s = (Failure VaultLocked, s) \<and>
      exportVault_bg stringify e pw s = (Failure VaultLocked, s) \<and>
      importVault_bg parse e sealed pw s =
        (Failure (case decryptData sealed pw of
                    Inl err \<Rightarrow> err
                  | Inr decrypted \<Rightarrow>
                      (case parse decrypted of None \<Rightarrow> SyntaxError | Some d \<Rightarrow> VaultLocked)),
         s)) \<and>
   \<not> isUnlocked (lockVault s) \<and> sessionKey (lockVault s) = None \<and>
   \<not> isUnlocked (snd (lockVault_bg e s)) \<and> sessionKey (snd (lockVault_bg e s)) = None \<and>
   \<not> isUnlocked (snd (lockVault_popup e ps)) \<and> popup_keys (fst (lockVault_popup e ps)) = [] \<and>
   (vault_json m \<noteq> None \<and> falsy (mcp_sessionKey m) \<and> \<not> live_session t m \<longrightarrow>
      fst (callTool (listApiKeys t en tg m)) = \<lparr>content = ErrorText VaultLocked, isError = True\<rparr> \<and>
      fst (callTool (searchApiKeys t q m)) = \<lparr>content = ErrorText VaultLocked, isError = True\<rparr> \<and>
      fst (callTool (getApiKey t name en m)) = \<lparr>content = ErrorText VaultLocked, isError = True\<rparr> \<and>
      vault_json (snd (callTool (listApiKeys t en tg m))) = vault_json m \<and>
      vault_json (snd (callTool (searchApiKeys t q m))) = vault_json m \<and>
      vault_json (snd (callTool (getApiKey t name en m))) = vault_json m \<and>
      session_json (snd (callTool (listApiKeys t en tg m))) = session_json m \<and>
      session_json (snd (callTool (searchApiKeys t q m))) = session_json m \<and>
      session_json (snd (callTool (getApiKey t name en m))) = session_json m) \<and>
   (cli_vault_json c = Some v \<and> falsy (cli_sessionKey c) \<longrightarrow>
      requireUnlocked_cli t typed c =
        (if verifyPassword typed (vf_passwordHash v)
         then (Inr (), c\<lparr>cli_vault := Some v, cli_sessionKey := Some typed, lastAccess := Some t\<rparr>)
         else (Inl InvalidPassword, c\<lparr>cli_vault := Some v\<rparr>)))"
proof (intro conjI impI)
  assume "\<not> isUnlocked s"
  note L = storage_locked [OF this, of e i keyData updates domain d]
    and H = handlers_locked [OF this, of e flt q i keyData updates domain stringify pw]
  from L show "getAllKeys e s = (Inl VaultLocked, s)" by simp
  from L show "getKey e i s = (Inl VaultLocked, s)" by simp
  from L show "addKey e keyData s = (Inl VaultLocked, s)" by simp
  from L show "updateKey e i updates s = (Inl VaultLocked, s)" by simp
  from L show "deleteKey e i s = (Inl VaultLocked, s)" by simp
  from L show "recordKeyUsage e i domain s = (Inl VaultLocked, s)" by simp
  from L show "exportData e s = (Inl VaultLocked, s)" by simp
  from L show "importData d s = (Inl VaultLocked, s)" by simp
  from H show "getKeys_bg e flt s = (Failure VaultLocked, s)" by simp
  from H show "searchKeys_bg e q s = (Failure VaultLocked, s)" by simp
  from H show "getKeyById_bg e i s = (Failure VaultLocked, s)" by simp
  from H show "addKey_bg e keyData s = (Failure VaultLocked, s)" by simp
  from H show "updateKey_bg e i updates s = (Failure VaultLocked, s)" by simp
  from H show "deleteKey_bg e i s = (Failure VaultLocked, s)" by simp
  from H show "recordKeyUsage_bg e i domain s = (Failure VaultLocked, s)" by simp
  from H show "exportVault_bg stringify e pw s = (Failure VaultLocked, s)" by simp
  from \<open>\<not> isUnlocked s\<close>
  show "importVault_bg parse e sealed pw s =
          (Failure (case decryptData sealed pw of
                      Inl err \<Rightarrow> err
                    | Inr decrypted \<Rightarrow>
                        (case parse decrypted of None \<Rightarrow> SyntaxError | Some d \<Rightarrow> VaultLocked)),
           s)"
    by (rule import_locked)
next
  show "\<not> isUnlocked (lockVault s)"
    using lock_locks [of s e ps] by simp
next
  show "sessionKey (lockVault s) = None"
    using lock_locks [of s e ps] by simp
next
  show "\<not> isUnlocked (snd (lockVault_bg e s))"
    using lock_locks [of s e ps] by simp
next
  show "sessionKey (snd (lockVault_bg e s)) = None"
    using lock_locks [of s e ps] by simp
next
  show "\<not> isUnlocked (snd (lockVault_popup e ps))"
    using lock_locks [of s e ps] by simp
next
  show "popup_keys (fst (lockVault_popup e ps)) = []"
    using lock_locks [of s e ps] by simp
next
  assume "vault_json m \<noteq> None \<and> falsy (mcp_sessionKey m) \<and> \<not> live_session t m"
  then have a: "vault_json m \<noteq> None" and b: "falsy (mcp_sessionKey m)"
    and c: "\<not> live_session t m" by simp_all
  note M = tools_locked [OF a b c, of en tg q name]
  from M show "fst (callTool (listApiKeys t en tg m))
                 = \<lparr>content = ErrorText VaultLocked, isError = True\<rparr>" by simp
  from M show "fst (callTool (searchApiKeys t q m))
                 = \<lparr>content = ErrorText VaultLocked, isError = True\<rparr>" by simp
  from M show "fst (callTool (getApiKey t name en m))
                 = \<lparr>content = ErrorText VaultLocked, isError = True\<rparr>" by simp
  from M show "vault_json (snd (callTool (listApiKeys t en tg m))) = vault_json m" by simp
  from M show "vault_json (snd (callTool (searchApiKeys t q m))) = vault_json m" by simp
  from M show "vault_json (snd (callTool (getApiKey t name en m))) = vault_json m" by simp
  from M show "session_json (snd (callTool (listApiKeys t en tg m))) = session_json m" by simp
  from M show "session_json (snd (callTool (searchApiKeys t q m))) = session_json m" by simp
  from M show "session_json (snd (callTool (getApiKey t name en m))) = session_json m" by simp
next
  assume "cli_vault_json c = Some v \<and> falsy (cli_sessionKey c)"
  then show "requireUnlocked_cli t typed c =
               (if verifyPassword typed (vf_passwordHash v)
                then (Inr (), c\<lparr>cli_vault := Some v, cli_sessionKey := Some typed,
                                lastAccess := Some t\<rparr>)
                else (Inl InvalidPassword, c\<lparr>cli_vault := Some v\<rparr>))"
    by (simp add: cli_prompts)
qed

theorem locked_operations_fail_witness:
  "\<not> isUnlocked ext_locked \<and>
   getKey env0 ''3'' ext_locked = (Inl VaultLocked, ext_locked) \<and>
   getKeys_bg env0 None ext_locked = (Failure VaultLocked, ext_locked) \<and>
   importVault_bg (\<lambda>text. None) env0 wrong_backup master ext_locked
     = (Failure DecryptionFailed, ext_locked) \<and>
   vault_json mcp_locked \<noteq> None \<and> falsy (mcp_sessionKey mcp_locked) \<and>
   \<not> live_session 2000 mcp_locked \<and>
   fst (callTool (getApiKey 2000 ''OpenAI'' (Some ''production'') mcp_locked))
     = \<lparr>content = ErrorText VaultLocked, isError = True\<rparr> \<and>
   cli_vault_json cli_locked = Some cli_file \<and> falsy (cli_sessionKey cli_locked) \<and>
   fst (requireUnlocked_cli 3000 ''hunter2'' cli_locked) = Inr () \<and>
   fst (requireUnlocked_cli 3000 ''guess'' cli_locked) = Inl InvalidPassword"
proof -
  have a: "\<not> isUnlocked ext_locked"
    by (simp add: ext_locked_def lockVault_def)
  have b: "decryptData wrong_backup master = Inl DecryptionFailed"
    by code_simp
  have c: "vault_json mcp_locked \<noteq> None \<and> falsy (mcp_sessionKey mcp_locked) \<and>
           \<not> live_session 2000 mcp_locked"
    by (simp add: mcp_locked_def falsy_def live_session_def)
  have d: "cli_vault_json cli_locked = Some cli_file \<and> falsy (cli_sessionKey cli_locked)"
    by (simp add: cli_locked_def falsy_def)
  have f: "verifyPassword ''hunter2'' (vf_passwordHash cli_file)"
    by code_simp
  have g: "\<not> verifyPassword ''guess'' (vf_passwordHash cli_file)"
    by code_simp
  note T = locked_operations_fail [where s = ext_locked and e = env0 and i = "''3''"
      and flt = None and parse = "\<lambda>text. None" and sealed = wrong_backup and pw = master
      and m = mcp_locked and t = 2000 and name = "''OpenAI''" and en = "Some ''production''"
      and c = cli_locked and v = cli_file]
  note U = locked_operations_fail [where s = ext_locked and m = mcp_locked and t = 3000
      and c = cli_locked and v = cli_file and typed = "''hunter2''"]
  note V = locked_operations_fail [where s = ext_locked and m = mcp_locked and t = 3000
      and c = cli_locked and v = cli_file and typed = "''guess''"]
  from T a have 1: "getKey env0 ''3'' ext_locked = (Inl VaultLocked, ext_locked)"
    and 2: "getKeys_bg env0 None ext_locked = (Failure VaultLocked, ext_locked)"
    by blast+
  from T a b have 3: "importVault_bg (\<lambda>text. None) env0 wrong_backup master ext_locked
                        = (Failure DecryptionFailed, ext_locked)"
    by simp
  from T c have 4: "fst (callTool (getApiKey 2000 ''OpenAI'' (Some ''production'') mcp_locked))
                      = \<lparr>content = ErrorText VaultLocked, isError = True\<rparr>"
    by blast
  from U d f have 5: "fst (requireUnlocked_cli 3000 ''hunter2'' cli_locked) = Inr ()"
    by simp
  from V d g have 6: "fst (requireUnlocked_cli 3000 ''guess'' cli_locked) = Inl InvalidPassword"
    by simp
  from a 1 2 3 c 4 d 5 6 show ?thesis by simp
qed

text \<open>
  The claim fails on the command-line tool: with no session key, \<^verbatim>\<open>list\<close> prompts, takes
  the master password and prints the keys; no locked error is raised.
\<close>

theorem cli_prompt_counterexample:
  "cli_sessionKey cli_locked = None \<and>
   fst (listKeys_cli 3000 ''hunter2'' None cli_locked)
     = Inr [(''5'', ''OpenAI'', ''production'', [])]"
proof -
  have "cli_sessionKey cli_locked = None"
    by (simp add: cli_locked_def)
  moreover have "fst (listKeys_cli 3000 ''hunter2'' None cli_locked)
                   = Inr [(''5'', ''OpenAI'', ''production'', [])]"
    by code_simp
  ultimately show ?thesis by simp
qed

section \<open>What the MCP server stores and checks\<close>

text \<open>
  C1 at the failing input. \<^verbatim>\<open>unlock_vault\<close> with the right master password on a vault
  file whose hash matches writes the session file, and the \<^verbatim>\<open>key\<close> in it is the master
  password itself.
\<close>

theorem session_file_holds_password:
  "unlockVault_mcp 3000 ''hunter2'' mcp_locked
     = (\<lparr>content = UnlockedText 1, isError = False\<rparr>,
        \<lparr>mcp_vault = Some cli_file, mcp_sessionKey = Some ''hunter2'',
         vault_json = Some cli_file,
         session_json = Some \<lparr>session_key = Some ''hunter2'', session_timestamp = 3000\<rparr>\<rparr>)"
  by code_simp

text \<open>
  C2 at the failing input. The MCP server accepts a password by comparing its unsalted
  SHA-256 digest with the stored one, and what \<^verbatim>\<open>get_api_key\<close> opens is the output of
  the password-keyed CBC cipher; a verifier of that form is one the extension's
  PBKDF2 check refuses, and an envelope the extension seals is one the server cannot open.
\<close>

theorem mcp_unsalted_hash_and_cbc:
  "vf_passwordHash cli_file = Sha256Hex ''hunter2'' \<and>
   fst (unlockVault_mcp 3000 ''hunter2'' mcp_locked)
     = \<lparr>content = UnlockedText 1, isError = False\<rparr> \<and>
   keyValue cli_key = CbcHex ''hunter2'' ''sk-AAA'' \<and>
   fst (getApiKey 2000 ''OpenAI'' (Some ''production'') mcp_unlocked)
     = Inr \<lparr>content = RetrievedKey ''OpenAI'' ''production'' ''sk-AAA'', isError = False\<rparr> \<and>
   fst (verifyMasterPassword [9] ''hunter2'' (Some (vf_passwordHash cli_file))) = False \<and>
   decrypt_mcp (encryptData [7] [8] ''sk-AAA'' ''hunter2'') ''hunter2'' = Inl DecryptionFailed"
proof -
  have "vf_passwordHash cli_file = Sha256Hex ''hunter2''"
    by (simp add: cli_file_def)
  moreover have "fst (unlockVault_mcp 3000 ''hunter2'' mcp_locked)
                   = \<lparr>content = UnlockedText 1, isError = False\<rparr>"
    by code_simp
  moreover have "keyValue cli_key = CbcHex ''hunter2'' ''sk-AAA''"
    by (simp add: cli_key_def example_key_def)
  moreover have "fst (getApiKey 2000 ''OpenAI'' (Some ''production'') mcp_unlocked)
                   = Inr \<lparr>content = RetrievedKey ''OpenAI'' ''production'' ''sk-AAA'',
                          isError = False\<rparr>"
    by code_simp
  moreover have "fst (verifyMasterPassword [9] ''hunter2'' (Some (vf_passwordHash cli_file)))
                   = False"
    by (simp add: cli_file_def)
  moreover have "decrypt_mcp (encryptData [7] [8] ''sk-AAA'' ''hunter2'') ''hunter2''
                   = Inl DecryptionFailed"
    by (simp add: encryptData_def)
  ultimately show ?thesis by simp
qed

section \<open>CSV export and import\<close>

lemma split_on_no_sep: "\<forall>c\<in>set a. \<not> P c \<Longrightarrow> split_on P a = [a]"
  by (induction a) auto

lemma split_on_append_sep:
  "\<forall>c\<in>set a. \<not> P c \<Longrightarrow> P s \<Longrightarrow> split_on P (a @ s # rest) = a # split_on P rest"
  by (induction a) auto

lemma split_join_lines:
  "\<forall>r\<in>set (h # rows). newline \<notin> set r \<Longrightarrow>
   split_on (\<lambda>c. c = newline) (join [newline] (h # rows)) = h # rows"
proof (induction rows arbitrary: h)
  case Nil
  then show ?case by (auto intro!: split_on_no_sep)
next
  case (Cons r rows)
  from Cons.prems have "\<forall>c\<in>set h. \<not> c = newline" by auto
  then have "split_on (\<lambda>c. c = newline) (h @ newline # join [newline] (r # rows))
               = h # split_on (\<lambda>c. c = newline) (join [newline] (r # rows))"
    by (rule split_on_append_sep) simp
  with Cons show ?case by simp
qed

lemma parse_loop_values: "parse_loop line cur q (vs @ ws) = vs @ parse_loop line cur q ws"
  by (induction line arbitrary: cur q ws) auto

lemma parse_quoted:
  "dquote \<notin> set f \<Longrightarrow> parse_loop (f @ rest) cur True vs = parse_loop rest (cur @ f) True vs"
  by (induction f arbitrary: cur) auto

lemma comma_not_dquote: "comma \<noteq> dquote"
  by (simp add: comma_def dquote_def)

lemma parse_field:
  "dquote \<notin> set f \<Longrightarrow>
   parse_loop (dquote # f @ dquote # comma # rest) [] False vs
     = parse_loop rest [] False (vs @ [trim f])"
  by (simp add: parse_quoted comma_not_dquote)

lemma escape_plain: "dquote \<notin> set f \<Longrightarrow> escapeCSV f = dquote # f @ [dquote]"
proof -
  assume nq: "dquote \<notin> set f"
  then have "concat (map (\<lambda>c. if c = dquote then [dquote, dquote] else [c]) f) = f"
    by (induction f) auto
  with nq show ?thesis by (simp add: escapeCSV_def)
qed

lemma strip_quotes_plain: "dquote \<notin> set f \<Longrightarrow> strip_quotes f = f"
  using last_in_set [of f] by (cases f) (auto simp: strip_quotes_def Let_def)

lemma trim_Nil: "trim [] = []"
  by (simp add: trim_def)

lemma trim_eq_Nil: "trim s = [] \<longleftrightarrow> (\<forall>c\<in>set s. is_space c)"
proof
  assume "trim s = []"
  then have "dropWhile is_space (rev (dropWhile is_space s)) = []"
    by (simp add: trim_def)
  then have "\<forall>c\<in>set (dropWhile is_space s). is_space c"
    by (simp add: dropWhile_eq_Nil_conv)
  then have "dropWhile is_space s = []"
    by (metis hd_dropWhile list.set_sel(1))
  then show "\<forall>c\<in>set s. is_space c"
    by (simp add: dropWhile_eq_Nil_conv)
next
  assume "\<forall>c\<in>set s. is_space c"
  then have "dropWhile is_space s = []"
    by (induction s) auto
  then show "trim s = []" by (simp only: trim_def rev.simps dropWhile.simps)
qed

lemma trim_ends: "s \<noteq> [] \<Longrightarrow> \<not> is_space (hd s) \<Longrightarrow> \<not> is_space (last s) \<Longrightarrow> trim s = s"
proof -
  assume ne: "s \<noteq> []" and h: "\<not> is_space (hd s)" and l: "\<not> is_space (last s)"
  from ne h have 1: "dropWhile is_space s = s"
    by (cases s) auto
  from ne l have "\<not> is_space (hd (rev s))"
    by (simp add: hd_rev)
  with ne have "dropWhile is_space (rev s) = rev s"
    by (cases "rev s") auto
  with 1 show ?thesis by (simp add: trim_def)
qed

lemma trim_fixed_ends:
  assumes "trim s = s" and "s \<noteq> []"
  shows "\<not> is_space (hd s) \<and> \<not> is_space (last s)"
proof -
  have len: "length (trim s) \<le> length (dropWhile is_space s)"
    unfolding trim_def by (metis length_dropWhile_le length_rev)
  have a: "\<not> is_space (hd s)"
  proof
    assume "is_space (hd s)"
    with assms(2) have "length (dropWhile is_space s) < length s"
      by (cases s) (auto intro: le_imp_less_Suc length_dropWhile_le)
    with len assms(1) show False by simp
  qed
  with assms(2) have d: "dropWhile is_space s = s"
    by (cases s) auto
  have b: "\<not> is_space (last s)"
  proof
    assume "is_space (last s)"
    with assms(2) have "is_space (hd (rev s))" by (simp add: hd_rev)
    with assms(2) have "length (dropWhile is_space (rev s)) < length (rev s)"
      by (cases "rev s") (auto intro: le_imp_less_Suc length_dropWhile_le)
    with d have "length (trim s) < length s" by (simp add: trim_def)
    with assms(1) show False by simp
  qed
  from a b show ?thesis by simp
qed

lemma space_is_space: "is_space CHR '' ''"
  by (simp add: is_space_def)

lemma trim_leading_space: "trim (CHR '' '' # t) = trim t"
  by (simp add: trim_def space_is_space)

lemma split_on_keep:
  "\<not> P c \<Longrightarrow> split_on P s = w # ws \<Longrightarrow> split_on P (c # s) = (c # w) # ws"
  by simp

lemma split_join_tags:
  "ts \<noteq> [] \<Longrightarrow> \<forall>t\<in>set ts. \<forall>c\<in>set t. \<not> (c = comma \<or> c = CHR '';'') \<Longrightarrow>
   split_on (\<lambda>c. c = comma \<or> c = CHR '';'') (join '', '' ts)
     = hd ts # map (\<lambda>t. CHR '' '' # t) (tl ts)"
proof (induction ts rule: induct_list012)
  case 1
  then show ?case by simp
next
  case (2 x)
  then show ?case by (simp add: split_on_no_sep)
next
  case (3 x y ys)
  let ?P = "\<lambda>c. c = comma \<or> c = CHR '';''"
  from 3 have IH: "split_on ?P (join '', '' (y # ys)) = y # map (\<lambda>t. CHR '' '' # t) ys"
    by simp
  have sp: "\<not> ?P CHR '' ''" by (simp add: comma_def)
  from 3(4) have x: "\<forall>c\<in>set x. \<not> ?P c" by simp
  have "split_on ?P (x @ comma # CHR '' '' # join '', '' (y # ys))
          = x # split_on ?P (CHR '' '' # join '', '' (y # ys))"
    using x by (rule split_on_append_sep) simp
  also have "split_on ?P (CHR '' '' # join '', '' (y # ys))
               = (CHR '' '' # y) # map (\<lambda>t. CHR '' '' # t) ys"
    using sp IH by (rule split_on_keep)
  finally show ?case by (simp add: comma_def)
qed

lemma hd_join: "ts \<noteq> [] \<Longrightarrow> hd ts \<noteq> [] \<Longrightarrow> hd (join sep ts) = hd (hd ts)"
  by (induction ts rule: induct_list012) auto

lemma join_suffix: "ts \<noteq> [] \<Longrightarrow> \<exists>pre. join sep ts = pre @ last ts"
proof (induction ts rule: induct_list012)
  case 1
  then show ?case by simp
next
  case (2 x)
  then show ?case by simp
next
  case (3 x y zs)
  then obtain pre where "join sep (y # zs) = pre @ last (y # zs)" by auto
  then have "join sep (x # y # zs) = (x @ sep @ pre) @ last (x # y # zs)" by simp
  then show ?case by blast
qed

lemma last_join: "ts \<noteq> [] \<Longrightarrow> last ts \<noteq> [] \<Longrightarrow> last (join sep ts) = last (last ts)"
  using join_suffix [of ts sep] by auto

lemma join_eq_Nil: "ts \<noteq> [] \<Longrightarrow> hd ts \<noteq> [] \<Longrightarrow> join sep ts \<noteq> []"
  by (induction ts rule: induct_list012) auto

lemma set_join: "set (join sep ts) \<subseteq> set sep \<union> \<Union> (set ` set ts)"
  by (induction ts rule: induct_list012) auto

lemma plain_tag_ends: "plain_tag t \<Longrightarrow> t \<noteq> [] \<Longrightarrow> \<not> is_space (hd t) \<and> \<not> is_space (last t)"
  by (simp add: plain_tag_def plain_field_def trim_fixed_ends)

lemma trim_join_tags:
  assumes "list_all plain_tag ts" and "list_all (\<lambda>t. t \<noteq> []) ts"
  shows "trim (join '', '' ts) = join '', '' ts"
proof (cases "ts = []")
  case True
  then show ?thesis by (simp add: trim_Nil)
next
  case False
  with assms have h: "hd ts \<noteq> []" "plain_tag (hd ts)" and l: "last ts \<noteq> []" "plain_tag (last ts)"
    by (auto simp: list_all_iff)
  from False h have ne: "join '', '' ts \<noteq> []" by (simp add: join_eq_Nil)
  from False h l plain_tag_ends show ?thesis
    by (intro trim_ends ne) (simp_all add: hd_join last_join)
qed

lemma extractTags_join:
  assumes "list_all plain_tag ts" and "list_all (\<lambda>t. t \<noteq> []) ts"
  shows "extractTags (join '', '' ts) = ts"
proof (cases "ts = []")
  case True
  then show ?thesis by (simp add: extractTags_def)
next
  case False
  with assms have h: "hd ts \<noteq> []" by (auto simp: list_all_iff)
  from False h have ne: "join '', '' ts \<noteq> []" by (simp add: join_eq_Nil)
  from assms(1) have "\<forall>t\<in>set ts. \<forall>c\<in>set t. \<not> (c = comma \<or> c = CHR '';'')"
    by (auto simp: list_all_iff plain_tag_def)
  from split_join_tags [OF False this]
  have sp: "split_on (\<lambda>c. c = comma \<or> c = CHR '';'') (join '', '' ts)
              = hd ts # map (\<lambda>t. CHR '' '' # t) (tl ts)" .
  from assms(1) have tr: "\<forall>t\<in>set ts. trim t = t"
    by (auto simp: list_all_iff plain_tag_def plain_field_def)
  from False tr have "trim (hd ts) = hd ts" by simp
  moreover from False tr have "map (\<lambda>t. trim (CHR '' '' # t)) (tl ts) = tl ts"
    by (cases ts) (simp_all add: trim_leading_space map_idI)
  ultimately have "map trim (hd ts # map (\<lambda>t. CHR '' '' # t) (tl ts)) = ts"
    using False by (simp add: comp_def)
  moreover from assms(2) have "filter (\<lambda>t. t \<noteq> []) ts = ts"
    by (simp add: list_all_iff)
  ultimately show ?thesis
    using ne sp by (simp add: extractTags_def)
qed

lemma dquote_not_space: "\<not> is_space dquote"
  by (simp add: is_space_def dquote_def)

lemma parse_closing:
  "dquote \<notin> set f \<Longrightarrow>
   parse_loop (f @ dquote # comma # rest) cur True vs
     = parse_loop rest [] False (vs @ [trim (cur @ f)])"
  by (simp add: parse_quoted comma_not_dquote)

lemma row_values:
  assumes "dquote \<notin> set f0" "dquote \<notin> set f1" "dquote \<notin> set f2" "dquote \<notin> set f3"
    "dquote \<notin> set f4"
  shows "parse_loop
           (join [comma]
              [escapeCSV f0, escapeCSV f1, escapeCSV f2, escapeCSV f3, escapeCSV f4, e5, stamp])
           [] False []
         = [trim f0, trim f1, trim f2, trim f3, trim f4]
           @ parse_loop (e5 @ comma # stamp) [] False []"
proof -
  have "parse_loop
          (join [comma]
             [escapeCSV f0, escapeCSV f1, escapeCSV f2, escapeCSV f3, escapeCSV f4, e5, stamp])
          [] False []
        = parse_loop (e5 @ comma # stamp) [] False
            ([trim f0, trim f1, trim f2, trim f3, trim f4] @ [])"
    using assms by (simp add: escape_plain parse_closing)
  then show ?thesis by (simp only: parse_loop_values)
qed

lemma header_mapping:
  "detectCSVMapping
     (map (\<lambda>h. toLowerCase (filter (\<lambda>c. c \<noteq> dquote) (trim h)))
        (split_on (\<lambda>c. c = comma) (join [comma] csv_headers)))
   = export_mapping"
  by code_simp

lemma header_no_newline: "newline \<notin> set (join [comma] csv_headers)"
  by code_simp

lemma newline_not_dquote: "newline \<noteq> dquote"
  by (simp add: newline_def dquote_def)

lemma newline_not_comma: "newline \<noteq> comma"
  by (simp add: newline_def comma_def)

lemma escape_no_newline: "newline \<notin> set f \<Longrightarrow> newline \<notin> set (escapeCSV f)"
  by (auto simp: escapeCSV_def newline_not_dquote split: if_splits)

lemma join_no_newline:
  "newline \<notin> set sep \<Longrightarrow> \<forall>t\<in>set ts. newline \<notin> set t \<Longrightarrow> newline \<notin> set (join sep ts)"
  using set_join [of sep ts] by auto

lemma join_no_dquote:
  "dquote \<notin> set sep \<Longrightarrow> \<forall>t\<in>set ts. dquote \<notin> set t \<Longrightarrow> dquote \<notin> set (join sep ts)"
  using set_join [of sep ts] by auto

lemma import_row_values:
  assumes "v1 \<noteq> []"
  shows "trim line \<noteq> [] \<Longrightarrow> parseCSVLine line = v0 # v1 # v2 # v3 # v4 # others \<Longrightarrow>
         import_row export_mapping line
           = [\<lparr>im_serviceName = Some v0, im_keyValue = v1, im_environment = Some v2,
               im_tags = extractTags v3, im_notes = Some v4, im_domains = [],
               im_favorite = False\<rparr>]"
  using assms by (simp add: import_row_def export_mapping_def at_index_def Let_def)

lemma import_exported_row:
  assumes rt: "round_trips fmt k" and row: "export_row fmt k = Some line"
  shows "import_row export_mapping line = [imported_of k] \<and> newline \<notin> set line"
proof -
  from rt have pf: "plain_field (serviceName k)" "plain_field (keyValue k)"
    "plain_field (environment k)" "plain_field (notes' k)" and kv: "keyValue k \<noteq> []"
    and pt: "list_all plain_tag (tags k)" and ne: "list_all (\<lambda>t. t \<noteq> []) (tags k)"
    and dm: "list_all (\<lambda>d. newline \<notin> set d) (domains k)"
    by (simp_all add: round_trips_def claimed_exportable_def)
  from rt row obtain stamp where st: "fmt (createdAt k) = Some stamp" "newline \<notin> set stamp"
    by (auto simp: round_trips_def export_row_def split: option.splits)
  let ?tg = "join '', '' (tags k)"
  let ?e5 = "escapeCSV (join '', '' (domains k))"
  from pt have tq: "dquote \<notin> set ?tg"
    by (intro join_no_dquote) (auto simp: list_all_iff plain_tag_def plain_field_def dquote_def)
  from pt have tn: "newline \<notin> set ?tg"
    by (intro join_no_newline) (auto simp: list_all_iff plain_tag_def plain_field_def newline_def)
  from dm have dn: "newline \<notin> set (join '', '' (domains k))"
    by (intro join_no_newline) (auto simp: list_all_iff newline_def)
  from st row have line: "line = join [comma]
      [escapeCSV (serviceName k), escapeCSV (keyValue k), escapeCSV (environment k),
       escapeCSV ?tg, escapeCSV (notes' k), ?e5, stamp]"
    by (simp add: export_row_def)
  from pf tq have vals: "parse_loop line [] False []
      = [trim (serviceName k), trim (keyValue k), trim (environment k), trim ?tg,
         trim (notes' k)] @ parse_loop (?e5 @ comma # stamp) [] False []"
    unfolding line by (intro row_values) (simp_all add: plain_field_def)
  from pf pt ne tq have "parseCSVLine line
      = serviceName k # keyValue k # environment k # ?tg # notes' k
        # map strip_quotes (parse_loop (?e5 @ comma # stamp) [] False [])"
    by (simp add: parseCSVLine_def vals plain_field_def trim_join_tags strip_quotes_plain)
  moreover have "trim line \<noteq> []"
  proof -
    from pf(1) have "line = dquote # tl line"
      by (simp add: line escape_plain plain_field_def)
    then have "dquote \<in> set line" by (metis list.set_intros(1))
    with dquote_not_space show ?thesis by (auto simp: trim_eq_Nil)
  qed
  ultimately have "import_row export_mapping line
      = [\<lparr>im_serviceName = Some (serviceName k), im_keyValue = keyValue k,
          im_environment = Some (environment k), im_tags = extractTags ?tg,
          im_notes = Some (notes' k), im_domains = [], im_favorite = False\<rparr>]"
    using kv by (intro import_row_values) simp_all
  with pt ne have 1: "import_row export_mapping line = [imported_of k]"
    by (simp add: extractTags_join imported_of_def)
  from pf tn dn st(2) have 2: "newline \<notin> set line"
    unfolding line
    by (intro join_no_newline) (auto simp: escape_no_newline plain_field_def newline_not_comma)
  from 1 2 show ?thesis by simp
qed

lemma export_rows_round_trip:
  "list_all (round_trips fmt) ks \<Longrightarrow>
   \<exists>rows. export_rows fmt ks = Some rows \<and> (\<forall>r\<in>set rows. newline \<notin> set r) \<and>
          concat (map (import_row export_mapping) rows) = map imported_of ks"
proof (induction ks)
  case Nil
  then show ?case by simp
next
  case (Cons k ks)
  from Cons.prems have rt: "round_trips fmt k" and rest: "list_all (round_trips fmt) ks"
    by simp_all
  from rt obtain line where line: "export_row fmt k = Some line"
    by (auto simp: round_trips_def export_row_def split: option.splits)
  from Cons.IH [OF rest] obtain rows where rows: "export_rows fmt ks = Some rows"
    "\<forall>r\<in>set rows. newline \<notin> set r"
    "concat (map (import_row export_mapping) rows) = map imported_of ks"
    by blast
  from import_exported_row [OF rt line] line rows show ?case by simp
qed

lemma importCSV_lines:
  assumes "\<forall>r\<in>set rows. newline \<notin> set r"
  shows "importCSV (join [newline] (join [comma] csv_headers # rows))
           = concat (map (import_row export_mapping) rows)"
proof -
  from assms header_no_newline
  have "split_on (\<lambda>c. c = newline) (join [newline] (join [comma] csv_headers # rows))
          = join [comma] csv_headers # rows"
    by (intro split_join_lines) simp
  then show ?thesis
    by (simp add: importCSV_def Let_def header_mapping)
qed

text \<open>
  C10, as the code has it. For every list of entries whose service name, key value,
  environment, notes and tags are as the claim restricts them, whose tags are moreover
  non-empty, whose domains hold no newline and whose creation time prints as a date,
  \<^verbatim>\<open>importCSV\<close> of what \<^verbatim>\<open>exportToCSV\<close> writes is the list of their service names, key
  values, environments, tags and notes, in the same order, with no domains and not
  favorite.
\<close>

theorem csv_round_trip:
  assumes "list_all (round_trips fmt) ks"
  shows "map_sum id importCSV (exportToCSV fmt ks) = Inr (map imported_of ks)"
proof -
  from export_rows_round_trip [OF assms] obtain rows where "export_rows fmt ks = Some rows"
    and "\<forall>r\<in>set rows. newline \<notin> set r"
    and "concat (map (import_row export_mapping) rows) = map imported_of ks"
    by blast
  then show ?thesis
    by (simp add: exportToCSV_def importCSV_lines)
qed

theorem csv_round_trip_witness:
  "list_all (round_trips example_iso) [csv_key, openai] \<and>
   map_sum id importCSV (exportToCSV example_iso [csv_key, openai])
     = Inr [\<lparr>im_serviceName = Some ''Stripe Live'', im_keyValue = ''sk_live_2'',
             im_environment = Some ''production'', im_tags = [''pay'', ''card x''],
             im_notes = Some ''main, billing'', im_domains = [], im_favorite = False\<rparr>,
            \<lparr>im_serviceName = Some ''OpenAI'', im_keyValue = ''sk-AAA'',
             im_environment = Some ''development'', im_tags = [''ai''],
             im_notes = Some '''', im_domains = [], im_favorite = False\<rparr>]"
proof -
  have a: "list_all (round_trips example_iso) [csv_key, openai]"
    by code_simp
  have b: "map imported_of [csv_key, openai]
             = [\<lparr>im_serviceName = Some ''Stripe Live'', im_keyValue = ''sk_live_2'',
                 im_environment = Some ''production'', im_tags = [''pay'', ''card x''],
                 im_notes = Some ''main, billing'', im_domains = [], im_favorite = False\<rparr>,
                \<lparr>im_serviceName = Some ''OpenAI'', im_keyValue = ''sk-AAA'',
                 im_environment = Some ''development'', im_tags = [''ai''],
                 im_notes = Some '''', im_domains = [], im_favorite = False\<rparr>]"
    by (simp add: imported_of_def csv_key_def openai_def example_key_def)
  note T = csv_round_trip [where fmt = example_iso and ks = "[csv_key, openai]"]
  from T a b show ?thesis by simp
qed

text \<open>
  The claim fails on an entry with an empty tag: every field is as the claim restricts
  it, and the entry comes back with no tag at all, because \<^verbatim>\<open>extractTags\<close> reads the
  empty tags column as no tags.
\<close>

theorem empty_tag_counterexample:
  "claimed_exportable empty_tag_key \<and>
   tags empty_tag_key = [''''] \<and>
   map_sum id importCSV (exportToCSV example_iso [empty_tag_key])
     = Inr [\<lparr>im_serviceName = Some ''OpenAI'', im_keyValue = ''sk-AAA'',
             im_environment = Some ''production'', im_tags = [],
             im_notes = Some '''', im_domains = [], im_favorite = False\<rparr>]"
proof -
  have "claimed_exportable empty_tag_key"
    by code_simp
  moreover have "tags empty_tag_key = ['''']"
    by (simp add: empty_tag_key_def)
  moreover have "map_sum id importCSV (exportToCSV example_iso [empty_tag_key])
     = Inr [\<lparr>im_serviceName = Some ''OpenAI'', im_keyValue = ''sk-AAA'',
             im_environment = Some ''production'', im_tags = [],
             im_notes = Some '''', im_domains = [], im_favorite = False\<rparr>]"
    by code_simp
  ultimately show ?thesis by simp
qed

end
